theory Spec2Isabelle
  imports Main "HOL-Library.Word"
begin

unbundle bit_operations_syntax

section \<open>Bytes, buffers and cursors\<close>

text \<open>
  A \<open>folly::IOBuf\<close> chain and an \<open>IOBufQueue\<close> are modelled by the list of their bytes;
  appending to a queue is list append.  A \<open>folly::io::Cursor\<close> is the list of the bytes
  that are still unread.  \<open>uint64_t\<close> and \<open>size_t\<close> are 64-bit words.
\<close>

type_synonym byte = "8 word"
type_synonym bytes = "byte list"
type_synonym u64 = "64 word"

text \<open>\<open>appender.writeBE\<close> of the low \<open>n\<close> bytes of a value, most significant byte first.\<close>

fun writeBE :: "nat \<Rightarrow> u64 \<Rightarrow> bytes" where
  "writeBE 0 v = []"
| "writeBE (Suc n) v = ucast (drop_bit (8 * n) v) # writeBE n v"

text \<open>\<open>cursor.readBE\<close>: the big-endian value of a byte sequence.\<close>

definition readBE :: "bytes \<Rightarrow> u64" where
  "readBE bs = foldl (\<lambda>acc b. push_bit 8 acc OR ucast b) 0 bs"

text \<open>\<open>IOBuf::computeChainDataLength\<close>, a \<open>size_t\<close>.\<close>

definition computeChainDataLength :: "bytes \<Rightarrow> u64" where
  "computeChainDataLength data = of_nat (length data)"

text \<open>
  \<open>Cursor::clone(buf, len)\<close> and \<open>Cursor::skip(len)\<close> throw \<open>std::out_of_range\<close> when
  fewer than \<open>len\<close> bytes are left; that outcome, which ends a \<open>noexcept\<close> parser and
  the process with it, is \<open>None\<close>.  The \<open>DCHECK\<close> assertions exist in debug builds only and
  are not part of the model; a theorem that needs one states it as a hypothesis.
\<close>

definition clone :: "bytes \<Rightarrow> u64 \<Rightarrow> (bytes \<times> bytes) option" where
  "clone cursor len =
     (if unat len \<le> length cursor
      then Some (take (unat len) cursor, drop (unat len) cursor) else None)"

definition skip :: "bytes \<Rightarrow> u64 \<Rightarrow> bytes option" where
  "skip cursor len =
     (if unat len \<le> length cursor then Some (drop (unat len) cursor) else None)"

section \<open>QUIC variable-length integers\<close>

text \<open>
  Modelled from the spec: \<open>quic/codec/QuicInteger.h\<close> (\<open>getQuicIntegerSize\<close>,
  \<open>encodeQuicInteger\<close>, \<open>decodeQuicInteger\<close>, \<open>kEightByteLimit\<close>) belongs to the QUIC
  library and is not among the sources.  Section 4.A of the specification: the top two
  bits of the first byte give the length class (1, 2, 4 or 8 bytes), the remaining bits
  the value; encoding picks the smallest class that fits and fails for values of
  \<open>2^62\<close> and above; decoding returns nothing, and leaves the cursor where it was, when
  fewer bytes than the class needs are available or allowed by \<open>atMost\<close>.
\<close>

datatype TransportErrorCode = INTERNAL_ERROR

type_synonym WriteResult = "TransportErrorCode + u64"

definition kOneByteLimit :: u64 where "kOneByteLimit = 0x3F"
definition kTwoByteLimit :: u64 where "kTwoByteLimit = 0x3FFF"
definition kFourByteLimit :: u64 where "kFourByteLimit = 0x3FFFFFFF"
definition kEightByteLimit :: u64 where "kEightByteLimit = 0x3FFFFFFFFFFFFFFF"

definition getQuicIntegerSize :: "u64 \<Rightarrow> WriteResult" where
  "getQuicIntegerSize v =
     (if v \<le> kOneByteLimit then Inr 1
      else if v \<le> kTwoByteLimit then Inr 2
      else if v \<le> kFourByteLimit then Inr 4
      else if v \<le> kEightByteLimit then Inr 8
      else Inl INTERNAL_ERROR)"

text \<open>The second argument and the second result are the bytes behind the appender.\<close>

definition encodeQuicInteger :: "u64 \<Rightarrow> bytes \<Rightarrow> WriteResult \<times> bytes" where
  "encodeQuicInteger v appender =
     (if v \<le> kOneByteLimit then (Inr 1, appender @ writeBE 1 v)
      else if v \<le> kTwoByteLimit then (Inr 2, appender @ writeBE 2 (v OR 0x4000))
      else if v \<le> kFourByteLimit then (Inr 4, appender @ writeBE 4 (v OR 0x80000000))
      else if v \<le> kEightByteLimit
        then (Inr 8, appender @ writeBE 8 (v OR 0xC000000000000000))
      else (Inl INTERNAL_ERROR, appender))"

text \<open>The result is the pair (value, bytes consumed) and the advanced cursor.\<close>

definition decodeQuicInteger :: "bytes \<Rightarrow> u64 \<Rightarrow> ((u64 \<times> u64) \<times> bytes) option" where
  "decodeQuicInteger cursor atMost' =
     (case cursor of
        [] \<Rightarrow> None
      | firstByte # _ \<Rightarrow>
          let bytesExpected = (2::nat) ^ unat (drop_bit 6 firstByte) in
          if unat atMost' < bytesExpected \<or> length cursor < bytesExpected then None
          else Some ((take_bit (8 * bytesExpected - 2) (readBE (take bytesExpected cursor)),
                      of_nat bytesExpected),
                     drop bytesExpected cursor))"

text \<open>The wire bytes of one varint (empty when the value is too large).\<close>

definition varintBytes :: "u64 \<Rightarrow> bytes" where
  "varintBytes v = snd (encodeQuicInteger v [])"

section \<open>Frame data model (HQFramer.h)\<close>

text \<open>
  Modelled from the spec: \<open>HQFramer.h\<close> (the frame and setting enumerations, the
  \<open>PriorityUpdate\<close> structure, the priority flag layout, \<open>kPushIdMask\<close> and
  \<open>kUnframedDataFrameLen\<close>) is not among the sources.  The enumerators are those of
  sections 3 and 4.B of the specification with the numbers of the HTTP/3 draft the
  code implements; the flag byte is laid out, most significant bit first, as
  prioritized type (2 bits), dependency type (2 bits), three empty bits and the
  exclusive bit; the push id mask is the high bit of the 64-bit identifier; the
  unframed DATA length is 0, the length \<open>onFramedIngress\<close> says is allowed for DATA
  on a partially reliable transport.
  \<open>FrameType\<close> and \<open>SettingId\<close> are enumerations over \<open>uint64_t\<close> into which the code
  casts any decoded integer, so both are 64-bit words with named values.
\<close>

type_synonym FrameType = u64

definition DATA :: FrameType where "DATA = 0x00"
definition HEADERS :: FrameType where "HEADERS = 0x01"
definition PRIORITY :: FrameType where "PRIORITY = 0x02"
definition CANCEL_PUSH :: FrameType where "CANCEL_PUSH = 0x03"
definition SETTINGS :: FrameType where "SETTINGS = 0x04"
definition PUSH_PROMISE :: FrameType where "PUSH_PROMISE = 0x05"
definition GOAWAY :: FrameType where "GOAWAY = 0x07"
definition MAX_PUSH_ID :: FrameType where "MAX_PUSH_ID = 0x0D"

type_synonym SettingId = u64

definition HEADER_TABLE_SIZE :: SettingId where "HEADER_TABLE_SIZE = 0x01"
definition NUM_PLACEHOLDERS :: SettingId where "NUM_PLACEHOLDERS = 0x09"
definition MAX_HEADER_LIST_SIZE :: SettingId where "MAX_HEADER_LIST_SIZE = 0x06"
definition QPACK_BLOCKED_STREAMS :: SettingId where "QPACK_BLOCKED_STREAMS = 0x07"

type_synonym SettingPair = "SettingId \<times> u64"

type_synonym PushId = u64

definition kPushIdMask :: PushId where "kPushIdMask = push_bit 63 1"

definition kUnframedDataFrameLen :: u64 where "kUnframedDataFrameLen = 0"

datatype PriorityElementType = REQUEST_STREAM | PUSH_STREAM | PLACEHOLDER | TREE_ROOT

text \<open>The enumerators as numbers, and the \<open>static_cast\<close> from a two-bit number.\<close>

fun PriorityElementType_value :: "PriorityElementType \<Rightarrow> byte" where
  "PriorityElementType_value REQUEST_STREAM = 0x00"
| "PriorityElementType_value PUSH_STREAM = 0x01"
| "PriorityElementType_value PLACEHOLDER = 0x02"
| "PriorityElementType_value TREE_ROOT = 0x03"

definition PriorityElementType_cast :: "byte \<Rightarrow> PriorityElementType" where
  "PriorityElementType_cast b =
     (if b = 0x00 then REQUEST_STREAM
      else if b = 0x01 then PUSH_STREAM
      else if b = 0x02 then PLACEHOLDER
      else TREE_ROOT)"

definition PRIORITIZED_TYPE_POS :: nat where "PRIORITIZED_TYPE_POS = 6"
definition DEPENDENCY_TYPE_POS :: nat where "DEPENDENCY_TYPE_POS = 4"
definition PRIORITY_EMPTY_POS :: nat where "PRIORITY_EMPTY_POS = 1"
definition PRIORITY_EXCLUSIVE_MASK :: byte where "PRIORITY_EXCLUSIVE_MASK = 0x01"

record PriorityUpdate =
  prioritizedType :: PriorityElementType
  dependencyType :: PriorityElementType
  exclusive :: bool
  prioritizedElementId :: u64
  elementDependencyId :: u64
  weight :: byte

record FrameHeader =
  type' :: FrameType
  length' :: u64

datatype ErrorCode =
    HTTP_MALFORMED_FRAME_DATA
  | HTTP_MALFORMED_FRAME_HEADERS
  | HTTP_MALFORMED_FRAME_PRIORITY
  | HTTP_MALFORMED_FRAME_CANCEL_PUSH
  | HTTP_MALFORMED_FRAME_SETTINGS
  | HTTP_MALFORMED_FRAME_PUSH_PROMISE
  | HTTP_MALFORMED_FRAME_GOAWAY
  | HTTP_MALFORMED_FRAME_MAX_PUSH_ID
  | HTTP_OTHER_ERROR nat

type_synonym ParseResult = "ErrorCode option"

section \<open>HQFramer.cpp: parsing\<close>

definition isInternalPushId :: "PushId \<Rightarrow> bool" where
  "isInternalPushId pushId = (pushId AND kPushIdMask \<noteq> 0)"

definition isExternalPushId :: "PushId \<Rightarrow> bool" where
  "isExternalPushId pushId = (\<not> (pushId AND kPushIdMask \<noteq> 0))"

text \<open>
  Every parser takes the cursor, the frame header and the current value of its output
  parameters, and returns its \<open>ParseResult\<close>, the cursor and the output parameters as
  the call leaves them.  The parsers that clone return \<open>None\<close> when the clone throws.
\<close>

definition parseData ::
  "bytes \<Rightarrow> FrameHeader \<Rightarrow> bytes option \<Rightarrow> (ParseResult \<times> bytes \<times> bytes option) option" where
  "parseData cursor header outBuf =
     (if length' header = 0 then Some (Some HTTP_MALFORMED_FRAME_DATA, cursor, outBuf)
      else case clone cursor (length' header) of
             None \<Rightarrow> None
           | Some (buf, cursor1) \<Rightarrow> Some (None, cursor1, Some buf))"

definition parseHeaders ::
  "bytes \<Rightarrow> FrameHeader \<Rightarrow> bytes option \<Rightarrow> (ParseResult \<times> bytes \<times> bytes option) option" where
  "parseHeaders cursor header outBuf =
     (case clone cursor (length' header) of
        None \<Rightarrow> None
      | Some (buf, cursor1) \<Rightarrow> Some (None, cursor1, Some buf))"

definition encodePriorityFlags :: "PriorityUpdate \<Rightarrow> byte" where
  "encodePriorityFlags priority =
     (let flags = 0x00;
          flags = flags OR push_bit PRIORITIZED_TYPE_POS
                             (PriorityElementType_value (prioritizedType priority));
          flags = flags OR push_bit DEPENDENCY_TYPE_POS
                             (PriorityElementType_value (dependencyType priority));
          flags = (if exclusive priority then flags OR PRIORITY_EXCLUSIVE_MASK else flags)
      in flags)"

definition decodePriorityFlags :: "byte \<Rightarrow> PriorityUpdate \<Rightarrow> bool \<times> PriorityUpdate" where
  "decodePriorityFlags flags outPriority =
     (let outPriority = outPriority\<lparr>prioritizedType := PriorityElementType_cast
            (drop_bit PRIORITIZED_TYPE_POS (flags AND push_bit PRIORITIZED_TYPE_POS 0x03))\<rparr>;
          outPriority = outPriority\<lparr>dependencyType := PriorityElementType_cast
            (drop_bit DEPENDENCY_TYPE_POS (flags AND push_bit DEPENDENCY_TYPE_POS 0x03))\<rparr>;
          outPriority = outPriority\<lparr>exclusive := (flags AND PRIORITY_EXCLUSIVE_MASK \<noteq> 0)\<rparr>;
          empty = flags AND push_bit PRIORITY_EMPTY_POS 0x07
      in if empty \<noteq> 0 then (False, outPriority) else (True, outPriority))"

definition parsePriority ::
  "bytes \<Rightarrow> FrameHeader \<Rightarrow> PriorityUpdate \<Rightarrow> ParseResult \<times> bytes \<times> PriorityUpdate" where
  "parsePriority cursor header outPriority =
     (let frameLength = length' header in
      case cursor of
        [] \<Rightarrow> (Some HTTP_MALFORMED_FRAME_PRIORITY, cursor, outPriority)
      | flags # cursor1 \<Rightarrow>
          let frameLength = frameLength - 1;
              (res, outPriority) = decodePriorityFlags flags outPriority in
          if \<not> res then (Some HTTP_MALFORMED_FRAME_PRIORITY, cursor1, outPriority)
          else if prioritizedType outPriority = TREE_ROOT
            then (Some HTTP_MALFORMED_FRAME_PRIORITY, cursor1, outPriority)
          else
            case decodeQuicInteger cursor1 frameLength of
              None \<Rightarrow> (Some HTTP_MALFORMED_FRAME_PRIORITY, cursor1, outPriority)
            | Some (prioritizedElementIdRes, cursor2) \<Rightarrow>
                let outPriority =
                      outPriority\<lparr>prioritizedElementId := fst prioritizedElementIdRes\<rparr>;
                    frameLength = frameLength - snd prioritizedElementIdRes in
                case (if dependencyType outPriority \<noteq> TREE_ROOT
                      then (case decodeQuicInteger cursor2 frameLength of
                              None \<Rightarrow> None
                            | Some (elementDependencyIdRes, cursor3) \<Rightarrow>
                                Some (cursor3,
                                      outPriority\<lparr>elementDependencyId :=
                                                    fst elementDependencyIdRes\<rparr>,
                                      frameLength - snd elementDependencyIdRes))
                      else Some (cursor2, outPriority, frameLength)) of
                  None \<Rightarrow> (Some HTTP_MALFORMED_FRAME_PRIORITY, cursor2, outPriority)
                | Some (cursor3, outPriority, frameLength) \<Rightarrow>
                    (case cursor3 of
                       [] \<Rightarrow> (Some HTTP_MALFORMED_FRAME_PRIORITY, cursor3, outPriority)
                     | w # cursor4 \<Rightarrow>
                         let outPriority = outPriority\<lparr>weight := w\<rparr>;
                             frameLength = frameLength - 1 in
                         if frameLength \<noteq> 0
                           then (Some HTTP_MALFORMED_FRAME_PRIORITY, cursor4, outPriority)
                         else (None, cursor4, outPriority)))"

definition parseCancelPush ::
  "bytes \<Rightarrow> FrameHeader \<Rightarrow> PushId \<Rightarrow> ParseResult \<times> bytes \<times> PushId" where
  "parseCancelPush cursor header outPushId =
     (let frameLength = length' header in
      case decodeQuicInteger cursor frameLength of
        None \<Rightarrow> (Some HTTP_MALFORMED_FRAME_CANCEL_PUSH, cursor, outPushId)
      | Some (pushId, cursor1) \<Rightarrow>
          let outPushId = fst pushId OR kPushIdMask;
              frameLength = frameLength - snd pushId in
          if frameLength \<noteq> 0 then (Some HTTP_MALFORMED_FRAME_CANCEL_PUSH, cursor1, outPushId)
          else (None, cursor1, outPushId))"

text \<open>
  \<open>decodeSettingValue\<close> takes \<open>frameLength\<close> by reference; the model returns it as the
  third component.
\<close>

definition decodeSettingValue ::
  "bytes \<Rightarrow> u64 \<Rightarrow> SettingId \<Rightarrow> (ErrorCode + u64 option) \<times> bytes \<times> u64" where
  "decodeSettingValue cursor frameLength settingId =
     (case decodeQuicInteger cursor frameLength of
        None \<Rightarrow> (Inl HTTP_MALFORMED_FRAME_SETTINGS, cursor, frameLength)
      | Some (settingValue, cursor1) \<Rightarrow>
          let value = fst settingValue;
              frameLength = frameLength - snd settingValue in
          if settingId = HEADER_TABLE_SIZE \<or> settingId = NUM_PLACEHOLDERS
             \<or> settingId = MAX_HEADER_LIST_SIZE \<or> settingId = QPACK_BLOCKED_STREAMS
          then (Inr (Some value), cursor1, frameLength)
          else (Inr None, cursor1, frameLength))"

text \<open>A successful decode consumes between one and eight bytes, within the bound.\<close>

lemma drop_bit6_byte: "unat (drop_bit 6 (b::byte)) < 4"
proof -
  have "unat (drop_bit 6 b) = unat b div 2 ^ 6"
    by (simp add: drop_bit_eq_div unat_div)
  moreover have "unat b < 2 ^ 8" using unsigned_less[of b] by simp
  ultimately show ?thesis by (simp add: less_mult_imp_div_less)
qed

lemma pow_class: "k < 4 \<Longrightarrow> (2::nat) ^ k \<in> {1, 2, 4, 8}"
proof -
  assume "k < 4"
  then consider "k = 0" | "k = 1" | "k = 2" | "k = 3" by linarith
  then show ?thesis by cases auto
qed

lemma decodeQuicInteger_SomeD:
  assumes "decodeQuicInteger cursor a = Some ((v, n), cursor1)"
  shows "unat n \<in> {1, 2, 4, 8}" and "unat n \<le> unat a" and "unat n \<le> length cursor"
    and "cursor1 = drop (unat n) cursor"
proof -
  from assms obtain b bs where c: "cursor = b # bs"
    by (cases cursor) (auto simp: decodeQuicInteger_def)
  let ?k = "(2::nat) ^ unat (drop_bit 6 b)"
  have k: "?k \<in> {1, 2, 4, 8}" by (rule pow_class[OF drop_bit6_byte])
  from assms c have ok: "\<not> unat a < ?k" "\<not> length cursor < ?k"
    and n: "n = of_nat ?k" and c1: "cursor1 = drop ?k cursor"
    by (auto simp: decodeQuicInteger_def Let_def split: if_splits)
  have "?k < 2 ^ LENGTH(64)" using k by auto
  then have un: "unat n = ?k" unfolding n by (rule of_nat_inverse[OF refl])
  show "unat n \<in> {1, 2, 4, 8}" using k un by simp
  show "unat n \<le> unat a" using ok un by simp
  show "unat n \<le> length cursor" using ok un by simp
  show "cursor1 = drop (unat n) cursor" using c1 un by simp
qed

lemma decodeQuicInteger_length:
  "decodeQuicInteger cursor a = Some (r, cursor1) \<Longrightarrow> length cursor1 < length cursor"
  using decodeQuicInteger_SomeD[of cursor a "fst r" "snd r" cursor1]
  by (cases cursor) auto

lemma decodeSettingValue_length:
  "decodeSettingValue cursor fl sid = (Inr v, cursor1, fl1) \<Longrightarrow> length cursor1 < length cursor"
  by (auto simp: decodeSettingValue_def Let_def split: option.splits if_splits prod.splits
           dest: decodeQuicInteger_length)

text \<open>The \<open>while (frameLength > 0)\<close> loop of \<open>parseSettings\<close>.\<close>

function parseSettings_loop ::
  "bytes \<Rightarrow> u64 \<Rightarrow> SettingPair list \<Rightarrow> ParseResult \<times> bytes \<times> SettingPair list" where
  "parseSettings_loop cursor frameLength settings =
     (if frameLength > 0 then
        case decodeQuicInteger cursor frameLength of
          None \<Rightarrow> (Some HTTP_MALFORMED_FRAME_SETTINGS, cursor, settings)
        | Some (settingIdRes, cursor1) \<Rightarrow>
            let frameLength1 = frameLength - snd settingIdRes;
                settingId = fst settingIdRes in
            case decodeSettingValue cursor1 frameLength1 settingId of
              (Inl err, cursor2, frameLength2) \<Rightarrow> (Some err, cursor2, settings)
            | (Inr settingValue, cursor2, frameLength2) \<Rightarrow>
                parseSettings_loop cursor2 frameLength2
                  (case settingValue of
                     Some v \<Rightarrow> settings @ [(settingId, v)]
                   | None \<Rightarrow> settings)
      else (None, cursor, settings))"
  by pat_completeness auto
termination
  by (relation "measure (\<lambda>(cursor, frameLength, settings). length cursor)")
     (auto dest!: decodeQuicInteger_length decodeSettingValue_length[OF sym])

declare parseSettings_loop.simps [simp del]

definition parseSettings ::
  "bytes \<Rightarrow> FrameHeader \<Rightarrow> SettingPair list \<Rightarrow> ParseResult \<times> bytes \<times> SettingPair list" where
  "parseSettings cursor header settings = parseSettings_loop cursor (length' header) settings"

definition parsePushPromise ::
  "bytes \<Rightarrow> FrameHeader \<Rightarrow> PushId \<Rightarrow> bytes option
     \<Rightarrow> (ParseResult \<times> bytes \<times> PushId \<times> bytes option) option" where
  "parsePushPromise cursor header outPushId outBuf =
     (let frameLength = length' header in
      case decodeQuicInteger cursor frameLength of
        None \<Rightarrow> Some (Some HTTP_MALFORMED_FRAME_PUSH_PROMISE, cursor, outPushId, outBuf)
      | Some (pushId, cursor1) \<Rightarrow>
          let outPushId = fst pushId OR kPushIdMask;
              frameLength = frameLength - snd pushId in
          case clone cursor1 frameLength of
            None \<Rightarrow> None
          | Some (buf, cursor2) \<Rightarrow> Some (None, cursor2, outPushId, Some buf))"

definition parseGoaway ::
  "bytes \<Rightarrow> FrameHeader \<Rightarrow> u64 \<Rightarrow> ParseResult \<times> bytes \<times> u64" where
  "parseGoaway cursor header outStreamId =
     (let frameLength = length' header in
      case decodeQuicInteger cursor frameLength of
        None \<Rightarrow> (Some HTTP_MALFORMED_FRAME_GOAWAY, cursor, outStreamId)
      | Some (streamId, cursor1) \<Rightarrow>
          let outStreamId = fst streamId;
              frameLength = frameLength - snd streamId in
          if frameLength \<noteq> 0 then (Some HTTP_MALFORMED_FRAME_GOAWAY, cursor1, outStreamId)
          else (None, cursor1, outStreamId))"

definition parseMaxPushId ::
  "bytes \<Rightarrow> FrameHeader \<Rightarrow> PushId \<Rightarrow> ParseResult \<times> bytes \<times> PushId" where
  "parseMaxPushId cursor header outPushId =
     (let frameLength = length' header in
      case decodeQuicInteger cursor frameLength of
        None \<Rightarrow> (Some HTTP_MALFORMED_FRAME_MAX_PUSH_ID, cursor, outPushId)
      | Some (pushId, cursor1) \<Rightarrow>
          let outPushId = fst pushId OR kPushIdMask;
              frameLength = frameLength - snd pushId in
          if frameLength \<noteq> 0 then (Some HTTP_MALFORMED_FRAME_MAX_PUSH_ID, cursor1, outPushId)
          else (None, cursor1, outPushId))"

section \<open>HQFramer.cpp: writing\<close>

text \<open>
  Every writer takes the output queue and returns its \<open>WriteResult\<close> together with the
  queue as the call leaves it.
\<close>

definition writeFrameHeader :: "bytes \<Rightarrow> FrameType \<Rightarrow> u64 \<Rightarrow> WriteResult \<times> bytes" where
  "writeFrameHeader queue type length1 =
     (case encodeQuicInteger type queue of
        (Inl err, queue1) \<Rightarrow> (Inl err, queue1)
      | (Inr typeRes, queue1) \<Rightarrow>
          (case encodeQuicInteger length1 queue1 of
             (Inl err, queue2) \<Rightarrow> (Inl err, queue2)
           | (Inr lengthRes, queue2) \<Rightarrow> (Inr (typeRes + lengthRes), queue2)))"

definition writeSimpleFrame :: "bytes \<Rightarrow> FrameType \<Rightarrow> bytes \<Rightarrow> WriteResult \<times> bytes" where
  "writeSimpleFrame queue type data =
     (let payloadSize = computeChainDataLength data in
      case writeFrameHeader queue type payloadSize of
        (Inl err, queue1) \<Rightarrow> (Inl err, queue1)
      | (Inr headerSize, queue1) \<Rightarrow> (Inr (headerSize + payloadSize), queue1 @ data))"

definition writeData :: "bytes \<Rightarrow> bytes \<Rightarrow> WriteResult \<times> bytes" where
  "writeData queue data = writeSimpleFrame queue DATA data"

definition writeUnframedBytes :: "bytes \<Rightarrow> bytes \<Rightarrow> WriteResult \<times> bytes" where
  "writeUnframedBytes queue data =
     (let payloadSize = computeChainDataLength data in (Inr payloadSize, queue @ data))"

definition writeHeaders :: "bytes \<Rightarrow> bytes \<Rightarrow> WriteResult \<times> bytes" where
  "writeHeaders queue data = writeSimpleFrame queue HEADERS data"

definition writePriority :: "bytes \<Rightarrow> PriorityUpdate \<Rightarrow> WriteResult \<times> bytes" where
  "writePriority queue priority =
     (let flags = encodePriorityFlags priority in
      case getQuicIntegerSize (prioritizedElementId priority) of
        Inl err \<Rightarrow> (Inl err, queue)
      | Inr prioritizedElementIdSize \<Rightarrow>
          let payloadSize = prioritizedElementIdSize + 2 * 1 in
          case (if dependencyType priority \<noteq> TREE_ROOT
                then (case getQuicIntegerSize (elementDependencyId priority) of
                        Inl err \<Rightarrow> Inl err
                      | Inr elementDependencyIdSize \<Rightarrow>
                          Inr (payloadSize + elementDependencyIdSize))
                else Inr payloadSize) of
            Inl err \<Rightarrow> (Inl err, queue)
          | Inr payloadSize \<Rightarrow>
              (case writeFrameHeader queue PRIORITY payloadSize of
                 (Inl err, queue1) \<Rightarrow> (Inl err, queue1)
               | (Inr headerSize, queue1) \<Rightarrow>
                   let appender = queue1 @ [flags];
                       appender = snd (encodeQuicInteger (prioritizedElementId priority) appender);
                       appender = (if dependencyType priority \<noteq> TREE_ROOT
                                   then snd (encodeQuicInteger (elementDependencyId priority)
                                               appender)
                                   else appender);
                       appender = appender @ [weight priority]
                   in (Inr (headerSize + payloadSize), appender)))"

definition writeCancelPush :: "bytes \<Rightarrow> PushId \<Rightarrow> WriteResult \<times> bytes" where
  "writeCancelPush writeBuf pushId =
     (let pushId = pushId AND NOT kPushIdMask in
      case getQuicIntegerSize pushId of
        Inl err \<Rightarrow> (Inl err, writeBuf)
      | Inr pushIdSize \<Rightarrow>
          let queue = snd (encodeQuicInteger pushId [])
          in writeSimpleFrame writeBuf CANCEL_PUSH queue)"

text \<open>The first \<open>for\<close> loop of \<open>writeSettings\<close>, which adds up the payload length.\<close>

fun writeSettings_size :: "SettingPair list \<Rightarrow> u64 \<Rightarrow> WriteResult" where
  "writeSettings_size [] settingsSize = Inr settingsSize"
| "writeSettings_size (setting # settings) settingsSize =
     (case getQuicIntegerSize (fst setting) of
        Inl err \<Rightarrow> Inl err
      | Inr idSize \<Rightarrow>
          (case getQuicIntegerSize (snd setting) of
             Inl err \<Rightarrow> Inl err
           | Inr valueSize \<Rightarrow> writeSettings_size settings (settingsSize + (idSize + valueSize))))"

text \<open>The second loop, which writes the pairs.\<close>

fun writeSettings_payload :: "SettingPair list \<Rightarrow> bytes \<Rightarrow> bytes" where
  "writeSettings_payload [] appender = appender"
| "writeSettings_payload (setting # settings) appender =
     (let appender = snd (encodeQuicInteger (fst setting) appender);
          appender = snd (encodeQuicInteger (snd setting) appender)
      in writeSettings_payload settings appender)"

definition writeSettings :: "bytes \<Rightarrow> SettingPair list \<Rightarrow> WriteResult \<times> bytes" where
  "writeSettings queue settings =
     (case writeSettings_size settings 0 of
        Inl err \<Rightarrow> (Inl err, queue)
      | Inr settingsSize \<Rightarrow>
          (case writeFrameHeader queue SETTINGS settingsSize of
             (Inl err, queue1) \<Rightarrow> (Inl err, queue1)
           | (Inr headerSize, queue1) \<Rightarrow>
               (Inr (headerSize + settingsSize), writeSettings_payload settings queue1)))"

definition writePushPromise :: "bytes \<Rightarrow> PushId \<Rightarrow> bytes \<Rightarrow> WriteResult \<times> bytes" where
  "writePushPromise queue pushId data =
     (let pushId = pushId AND NOT kPushIdMask in
      case getQuicIntegerSize pushId of
        Inl err \<Rightarrow> (Inl err, queue)
      | Inr pushIdSize \<Rightarrow>
          let payloadSize = pushIdSize + computeChainDataLength data in
          case writeFrameHeader queue PUSH_PROMISE payloadSize of
            (Inl err, queue1) \<Rightarrow> (Inl err, queue1)
          | (Inr headerSize, queue1) \<Rightarrow>
              let appender = snd (encodeQuicInteger pushId queue1);
                  appender = appender @ data
              in (Inr (headerSize + payloadSize), appender))"

definition writeGoaway :: "bytes \<Rightarrow> u64 \<Rightarrow> WriteResult \<times> bytes" where
  "writeGoaway writeBuf lastStreamId =
     (case getQuicIntegerSize lastStreamId of
        Inl err \<Rightarrow> (Inl err, writeBuf)
      | Inr lastStreamIdSize \<Rightarrow>
          let queue = snd (encodeQuicInteger lastStreamId [])
          in writeSimpleFrame writeBuf GOAWAY queue)"

definition writeMaxPushId :: "bytes \<Rightarrow> PushId \<Rightarrow> WriteResult \<times> bytes" where
  "writeMaxPushId writeBuf maxPushId =
     (let maxPushId = maxPushId AND NOT kPushIdMask in
      case getQuicIntegerSize maxPushId of
        Inl err \<Rightarrow> (Inl err, writeBuf)
      | Inr maxPushIdSize \<Rightarrow>
          let queue = snd (encodeQuicInteger maxPushId [])
          in writeSimpleFrame writeBuf MAX_PUSH_ID queue)"

section \<open>HQFramedCodec.cpp\<close>

datatype FrameState =
    FRAME_HEADER_TYPE
  | FRAME_HEADER_LENGTH
  | FRAME_PAYLOAD
  | FRAME_PAYLOAD_STREAMING
  | FRAME_PAYLOAD_PARTIALLY_RELIABLE_STREAMING

text \<open>The members of \<open>HQFramedCodec\<close> that \<open>onFramedIngress\<close> reads and writes
  (\<open>callback\<close> is whether \<open>callback_\<close> is set).\<close>

record HQFramedCodec =
  frameState :: FrameState
  curHeader :: FrameHeader
  pendingDataFrameBytes :: u64
  totalBytesParsed :: u64
  connError :: ParseResult
  parserPaused :: bool
  callback :: bool
  streamId :: u64

text \<open>
  Modelled from the spec: \<open>HQFramedCodec.h\<close> and the classes that derive from it are
  not among the sources.  What a derived class supplies is a parameter of the model:
  \<open>checkFrameAllowed\<close>, \<open>transportSupportsPartialReliability\<close>,
  \<open>parsePartiallyReliableData\<close>, and the value \<open>outPriority\<close> holds before
  \<open>parsePriority\<close> fills it.  The per-type members \<open>parseData(cursor, header)\<close>,
  \<open>parseHeaders(cursor, header)\<close>, ... that \<open>parseFrame\<close> dispatches to are taken to
  call the framer's parser of the same name and, when it succeeds, to hand its output
  to the consumer as one structured event (section 4.C, callback surface).
\<close>

record hooks =
  checkFrameAllowed :: "FrameType \<Rightarrow> ParseResult"
  transportSupportsPartialReliability :: bool
  parsePartiallyReliableData :: "bytes \<Rightarrow> ParseResult"
  outPriority0 :: PriorityUpdate

datatype frame =
    DataFrame bytes
  | HeadersFrame bytes
  | PriorityFrame PriorityUpdate
  | CancelPushFrame PushId
  | SettingsFrame "SettingPair list"
  | PushPromiseFrame PushId bytes
  | GoawayFrame u64
  | MaxPushIdFrame PushId

text \<open>What the consumer and the derived class observe, in order:
  \<open>onFrameHeader(streamId, flags, length, type)\<close>, a structured frame event,
  \<open>onIngressPartiallyReliableBodyStarted(offset)\<close> and
  \<open>onError(kSessionStreamId, ex, false)\<close> with the error code as errno.\<close>

datatype event =
    OnFrameHeader u64 u64 u64 u64
  | OnFrame frame
  | OnIngressPartiallyReliableBodyStarted u64
  | OnError ErrorCode

text \<open>The event of a per-type parser: its output when it succeeded, nothing otherwise.\<close>

definition surfaced :: "ParseResult \<Rightarrow> frame \<Rightarrow> event list" where
  "surfaced res f = (if res = None then [OnFrame f] else [])"

text \<open>
  \<open>parseFrame\<close> returns the \<open>ParseResult\<close>, the cursor and the events of the per-type
  parser; \<open>None\<close> is an exception thrown by a clone or by the skip.
\<close>

definition parseFrame ::
  "hooks \<Rightarrow> FrameHeader \<Rightarrow> bytes \<Rightarrow> (ParseResult \<times> bytes \<times> event list) option" where
  "parseFrame h header cursor =
     (if type' header = DATA then
        (case parseData cursor header None of
           None \<Rightarrow> None
         | Some (res, cursor1, outBuf) \<Rightarrow>
             Some (res, cursor1, surfaced res (DataFrame (case outBuf of None \<Rightarrow> [] | Some b \<Rightarrow> b))))
      else if type' header = HEADERS then
        (case parseHeaders cursor header None of
           None \<Rightarrow> None
         | Some (res, cursor1, outBuf) \<Rightarrow>
             Some (res, cursor1,
                   surfaced res (HeadersFrame (case outBuf of None \<Rightarrow> [] | Some b \<Rightarrow> b))))
      else if type' header = PRIORITY then
        (case parsePriority cursor header (outPriority0 h) of
           (res, cursor1, outPriority) \<Rightarrow>
             Some (res, cursor1, surfaced res (PriorityFrame outPriority)))
      else if type' header = CANCEL_PUSH then
        (case parseCancelPush cursor header 0 of
           (res, cursor1, outPushId) \<Rightarrow>
             Some (res, cursor1, surfaced res (CancelPushFrame outPushId)))
      else if type' header = SETTINGS then
        (case parseSettings cursor header [] of
           (res, cursor1, settings) \<Rightarrow>
             Some (res, cursor1, surfaced res (SettingsFrame settings)))
      else if type' header = PUSH_PROMISE then
        (case parsePushPromise cursor header 0 None of
           None \<Rightarrow> None
         | Some (res, cursor1, outPushId, outBuf) \<Rightarrow>
             Some (res, cursor1,
                   surfaced res (PushPromiseFrame outPushId
                                   (case outBuf of None \<Rightarrow> [] | Some b \<Rightarrow> b))))
      else if type' header = GOAWAY then
        (case parseGoaway cursor header 0 of
           (res, cursor1, outStreamId) \<Rightarrow>
             Some (res, cursor1, surfaced res (GoawayFrame outStreamId)))
      else if type' header = MAX_PUSH_ID then
        (case parseMaxPushId cursor header 0 of
           (res, cursor1, outPushId) \<Rightarrow>
             Some (res, cursor1, surfaced res (MaxPushIdFrame outPushId)))
      else
        (case skip cursor (length' header) of
           None \<Rightarrow> None
         | Some cursor1 \<Rightarrow> Some (None, cursor1, [])))"

text \<open>
  One iteration of the \<open>while\<close> loop of \<open>onFramedIngress\<close>, up to the \<open>CHECK_GE\<close>.
  \<open>Break\<close> is a \<open>break\<close>, \<open>Continue\<close> reaching the end of the body, \<open>Abort\<close> an exception;
  the values are the codec, the cursor, \<open>parsed\<close> and the events so far.
\<close>

datatype 'a flow = Abort | Break 'a | Continue 'a

definition onFramedIngress_body ::
  "hooks \<Rightarrow> HQFramedCodec \<Rightarrow> bytes \<Rightarrow> u64 \<Rightarrow> event list
     \<Rightarrow> (HQFramedCodec \<times> bytes \<times> u64 \<times> event list) flow" where
  "onFramedIngress_body h this cursor bufLen events =
     (let parsed = 0 in
      if frameState this = FRAME_HEADER_TYPE then
        (case decodeQuicInteger cursor 8 of
           None \<Rightarrow> Break (this, cursor, parsed, events)
         | Some (type, cursor1) \<Rightarrow>
             let this = this\<lparr>curHeader := (curHeader this)\<lparr>type' := fst type\<rparr>\<rparr>;
                 parsed = parsed + snd type;
                 res = checkFrameAllowed h (type' (curHeader this)) in
             if res \<noteq> None
               then Break (this\<lparr>connError := res\<rparr>, cursor1, parsed, events)
             else Continue (this\<lparr>frameState := FRAME_HEADER_LENGTH\<rparr>,
                            cursor1, parsed, events))
      else if frameState this = FRAME_HEADER_LENGTH then
        (case decodeQuicInteger cursor 8 of
           None \<Rightarrow> Break (this, cursor, parsed, events)
         | Some (len, cursor1) \<Rightarrow>
             let this = this\<lparr>curHeader := (curHeader this)\<lparr>length' := fst len\<rparr>\<rparr>;
                 parsed = parsed + snd len;
                 events = (if callback this
                           then events @ [OnFrameHeader (streamId this) 0
                                            (length' (curHeader this)) (type' (curHeader this))]
                           else events);
                 this = this\<lparr>pendingDataFrameBytes := length' (curHeader this)\<rparr> in
             if type' (curHeader this) = DATA then
               (if transportSupportsPartialReliability h
                   \<and> length' (curHeader this) = kUnframedDataFrameLen
                then Continue
                       (this\<lparr>frameState := FRAME_PAYLOAD_PARTIALLY_RELIABLE_STREAMING\<rparr>,
                        cursor1, parsed,
                        events @ [OnIngressPartiallyReliableBodyStarted
                                    (totalBytesParsed this + parsed)])
                else Continue (this\<lparr>frameState := FRAME_PAYLOAD_STREAMING\<rparr>,
                               cursor1, parsed, events))
             else Continue (this\<lparr>frameState := FRAME_PAYLOAD\<rparr>, cursor1, parsed, events))
      else if frameState this = FRAME_PAYLOAD then
        (let frameLen = length' (curHeader this) in
         if bufLen \<ge> frameLen then
           (case parseFrame h (curHeader this) cursor of
              None \<Rightarrow> Abort
            | Some (res, cursor1, evs) \<Rightarrow>
                let this = this\<lparr>connError := res\<rparr>;
                    parsed = parsed + length' (curHeader this);
                    this = this\<lparr>frameState := FRAME_HEADER_TYPE\<rparr>
                in Continue (this, cursor1, parsed, events @ evs))
         else Break (this, cursor, parsed, events))
      else if bufLen > 0 \<and> frameState this = FRAME_PAYLOAD_STREAMING then
        (let auxDataFrameHeader =
               \<lparr>type' = DATA, length' = min (pendingDataFrameBytes this) bufLen\<rparr> in
         case parseData cursor auxDataFrameHeader None of
           None \<Rightarrow> Abort
         | Some (res, cursor1, outBuf) \<Rightarrow>
             let evs = surfaced res (DataFrame (case outBuf of None \<Rightarrow> [] | Some b \<Rightarrow> b));
                 this = this\<lparr>connError := res\<rparr>;
                 parsed = parsed + length' auxDataFrameHeader;
                 this = this\<lparr>pendingDataFrameBytes :=
                               pendingDataFrameBytes this - length' auxDataFrameHeader\<rparr>;
                 this = (if pendingDataFrameBytes this = 0
                         then this\<lparr>frameState := FRAME_HEADER_TYPE\<rparr> else this)
             in Continue (this, cursor1, parsed, events @ evs))
      else if bufLen > 0 \<and> frameState this = FRAME_PAYLOAD_PARTIALLY_RELIABLE_STREAMING then
        (let this = this\<lparr>connError := parsePartiallyReliableData h cursor\<rparr>;
             parsed = parsed + bufLen
         in Continue (this, cursor, parsed, events))
      else Continue (this, cursor, parsed, events))"

text \<open>
  The loop.  After the body: \<open>CHECK_GE(bufLen, parsed)\<close>, which aborts the process when
  it fails, and the three updates.  The result is the codec, \<open>parsedTot\<close> and the events.
\<close>

definition loop_measure :: "HQFramedCodec \<Rightarrow> u64 \<Rightarrow> nat" where
  "loop_measure this bufLen =
     (if connError this \<noteq> None then 0
      else 2 * unat bufLen + (if frameState this = FRAME_PAYLOAD then 2 else 1))"

lemma decodeQuicInteger_pos:
  "decodeQuicInteger cursor a = Some (r, cursor1) \<Longrightarrow> 0 < snd r"
  using decodeQuicInteger_SomeD(1)[of cursor a "fst r" "snd r" cursor1]
  by (auto simp: word_greater_zero_iff unat_eq_zero dest!: sym[of _ "unat (snd r)"])

lemma unat_sub_less: "0 < (p::u64) \<Longrightarrow> p \<le> b \<Longrightarrow> unat (b - p) < unat b"
  by (simp add: unat_sub word_less_nat_alt word_le_nat_alt)

lemma body_decreases:
  assumes ce: "connError this = None" and pos: "0 < bufLen"
    and body: "onFramedIngress_body h this cursor bufLen events
                 = Continue (this1, cursor1, parsed, events1)"
    and chk: "parsed \<le> bufLen"
  shows "loop_measure (this1\<lparr>totalBytesParsed := totalBytesParsed this1 + parsed\<rparr>)
           (bufLen - parsed) < loop_measure this bufLen"
proof (cases "frameState this")
  case FRAME_HEADER_TYPE
  with body ce chk show ?thesis
    by (auto simp: onFramedIngress_body_def Let_def loop_measure_def
             split: option.splits if_splits prod.splits
             dest!: decodeQuicInteger_pos unat_sub_less)
next
  case FRAME_HEADER_LENGTH
  with body ce chk show ?thesis
    by (auto simp: onFramedIngress_body_def Let_def loop_measure_def
             split: option.splits if_splits prod.splits
             dest!: decodeQuicInteger_pos unat_sub_less)
next
  case FRAME_PAYLOAD
  with body ce chk show ?thesis
    by (auto simp: onFramedIngress_body_def Let_def loop_measure_def unat_sub word_le_nat_alt
             split: option.splits if_splits prod.splits)
next
  case FRAME_PAYLOAD_STREAMING
  show ?thesis
  proof (cases "min (pendingDataFrameBytes this) bufLen = 0")
    case True
    with body ce pos FRAME_PAYLOAD_STREAMING show ?thesis
      by (auto simp: onFramedIngress_body_def Let_def loop_measure_def parseData_def
               split: if_splits)
  next
    case False
    then have "0 < min (pendingDataFrameBytes this) bufLen"
      unfolding word_greater_zero_iff .
    then have dec: "unat (bufLen - min (pendingDataFrameBytes this) bufLen) < unat bufLen"
      by (rule unat_sub_less) simp
    with body ce pos False FRAME_PAYLOAD_STREAMING show ?thesis
      by (auto simp: onFramedIngress_body_def Let_def loop_measure_def parseData_def
               split: if_splits option.splits prod.splits)
  qed
next
  case FRAME_PAYLOAD_PARTIALLY_RELIABLE_STREAMING
  with body ce chk pos show ?thesis
    by (auto simp: onFramedIngress_body_def Let_def loop_measure_def word_less_nat_alt
             split: option.splits if_splits prod.splits)
qed

function onFramedIngress_loop ::
  "hooks \<Rightarrow> HQFramedCodec \<Rightarrow> bytes \<Rightarrow> u64 \<Rightarrow> u64 \<Rightarrow> event list
     \<Rightarrow> (HQFramedCodec \<times> u64 \<times> event list) option" where
  "onFramedIngress_loop h this cursor bufLen parsedTot events =
     (if connError this = None \<and> bufLen > 0 \<and> \<not> parserPaused this then
        (case onFramedIngress_body h this cursor bufLen events of
           Abort \<Rightarrow> None
         | Break (this1, cursor1, parsed, events1) \<Rightarrow> Some (this1, parsedTot, events1)
         | Continue (this1, cursor1, parsed, events1) \<Rightarrow>
             if \<not> bufLen \<ge> parsed then None
             else onFramedIngress_loop h
                    (this1\<lparr>totalBytesParsed := totalBytesParsed this1 + parsed\<rparr>)
                    cursor1 (bufLen - parsed) (parsedTot + parsed) events1)
      else Some (this, parsedTot, events))"
  by pat_completeness auto
termination
  by (relation "measure (\<lambda>(h, this, cursor, bufLen, parsedTot, events).
                           loop_measure this bufLen)")
     (auto intro: body_decreases)

declare onFramedIngress_loop.simps [simp del]

text \<open>\<open>checkConnectionError\<close>; \<open>setParserPaused(true)\<close> sets \<open>parserPaused_\<close>.\<close>

definition checkConnectionError ::
  "HQFramedCodec \<Rightarrow> ParseResult \<Rightarrow> event list \<Rightarrow> bool \<times> HQFramedCodec \<times> event list" where
  "checkConnectionError this err events =
     (case err of
        Some e \<Rightarrow>
          let this = this\<lparr>parserPaused := True\<rparr>;
              events = (if callback this then events @ [OnError e] else events)
          in (True, this, events)
      | None \<Rightarrow> (False, this, events))"

text \<open>\<open>onFramedIngress\<close> returns \<open>parsedTot\<close>, the codec and the events of the call.\<close>

definition onFramedIngress ::
  "hooks \<Rightarrow> HQFramedCodec \<Rightarrow> bytes \<Rightarrow> (u64 \<times> HQFramedCodec \<times> event list) option" where
  "onFramedIngress h this buf =
     (if connError this \<noteq> None then Some (0, this, [])
      else
        (case onFramedIngress_loop h this buf (of_nat (length buf)) 0 [] of
           None \<Rightarrow> None
         | Some (this1, parsedTot, events) \<Rightarrow>
             (case checkConnectionError this1 (connError this1) events of
                (_, this2, events2) \<Rightarrow> Some (parsedTot, this2, events2))))"

text \<open>
  A sequence of \<open>onFramedIngress\<close> calls on one codec, each with its own buffer; the
  result is the final codec and, per call, the value returned and the events emitted.
\<close>

fun onFramedIngress_calls ::
  "hooks \<Rightarrow> HQFramedCodec \<Rightarrow> bytes list \<Rightarrow> (HQFramedCodec \<times> (u64 \<times> event list) list) option" where
  "onFramedIngress_calls h this [] = Some (this, [])"
| "onFramedIngress_calls h this (buf # bufs) =
     (case onFramedIngress h this buf of
        None \<Rightarrow> None
      | Some (n, this1, events) \<Rightarrow>
          (case onFramedIngress_calls h this1 bufs of
             None \<Rightarrow> None
           | Some (this2, rs) \<Rightarrow> Some (this2, (n, events) # rs)))"

fun isOnError :: "event \<Rightarrow> bool" where
  "isOnError (OnError e) = True"
| "isOnError _ = False"

text \<open>Every \<open>onError\<close> of an event sequence is its last event.\<close>

fun errorOnlyLast :: "event list \<Rightarrow> bool" where
  "errorOnlyLast [] = True"
| "errorOnlyLast (e # es) = ((if isOnError e then es = [] else True) \<and> errorOnlyLast es)"

text \<open>
  A codec as it is before any input, with a callback, and a derived class that allows
  every frame on a transport without partial reliability.
\<close>

definition exampleHooks :: hooks where
  "exampleHooks =
     \<lparr>checkFrameAllowed = (\<lambda>t. None), transportSupportsPartialReliability = False,
      parsePartiallyReliableData = (\<lambda>c. None),
      outPriority0 = \<lparr>prioritizedType = REQUEST_STREAM, dependencyType = REQUEST_STREAM,
                       exclusive = False, prioritizedElementId = 0, elementDependencyId = 0,
                       weight = 0\<rparr>\<rparr>"

definition freshCodec :: HQFramedCodec where
  "freshCodec =
     \<lparr>frameState = FRAME_HEADER_TYPE, curHeader = \<lparr>type' = 0, length' = 0\<rparr>,
      pendingDataFrameBytes = 0, totalBytesParsed = 0, connError = None,
      parserPaused = False, callback = True, streamId = 0\<rparr>"

section \<open>Payload layouts, read from the payload bytes alone\<close>

text \<open>
  The PRIORITY payload as section 4.C words it, on exactly the bytes of the declared
  length: a flags byte whose three empty bits are zero and whose prioritized type is not
  the tree root, the varint \<open>prioritizedElementId\<close>, the varint \<open>elementDependencyId\<close> if
  and only if the dependency type is not the tree root, the weight byte, and nothing
  after it.  The result is the update these bytes describe (a field that is not on the
  wire keeps the value it has in \<open>out0\<close>), or \<open>None\<close> when the payload is invalid.
\<close>

definition priorityPayload :: "bytes \<Rightarrow> PriorityUpdate \<Rightarrow> PriorityUpdate option" where
  "priorityPayload payload out0 =
     (case payload of
        [] \<Rightarrow> None
      | flags # p1 \<Rightarrow>
          let u = snd (decodePriorityFlags flags out0) in
          if flags AND push_bit PRIORITY_EMPTY_POS 0x07 \<noteq> 0 then None
          else if prioritizedType u = TREE_ROOT then None
          else
            (case decodeQuicInteger p1 8 of
               None \<Rightarrow> None
             | Some (pe, p2) \<Rightarrow>
                 (case (if dependencyType u \<noteq> TREE_ROOT
                        then (case decodeQuicInteger p2 8 of
                                None \<Rightarrow> None
                              | Some (de, p3) \<Rightarrow>
                                  Some (u\<lparr>prioritizedElementId := fst pe,
                                          elementDependencyId := fst de\<rparr>, p3))
                        else Some (u\<lparr>prioritizedElementId := fst pe\<rparr>, p2)) of
                    None \<Rightarrow> None
                  | Some (u1, p3) \<Rightarrow>
                      (case p3 of
                         [] \<Rightarrow> None
                       | w # residual \<Rightarrow>
                           if residual \<noteq> [] then None else Some (u1\<lparr>weight := w\<rparr>)))))"

text \<open>
  The SETTINGS payload as section 4.C words it: (id, value) varint pairs until the
  payload is exhausted; \<open>None\<close> when an id or a value cannot be decoded from what remains.
\<close>

function settingsPayload :: "bytes \<Rightarrow> SettingPair list option" where
  "settingsPayload payload =
     (if payload = [] then Some []
      else
        (case decodeQuicInteger payload 8 of
           None \<Rightarrow> None
         | Some (sid, p1) \<Rightarrow>
             (case decodeQuicInteger p1 8 of
                None \<Rightarrow> None
              | Some (v, p2) \<Rightarrow>
                  (case settingsPayload p2 of
                     None \<Rightarrow> None
                   | Some pairs \<Rightarrow> Some ((fst sid, fst v) # pairs)))))"
  by pat_completeness auto
termination
  by (relation "measure length") (auto dest!: decodeQuicInteger_length)

declare settingsPayload.simps [simp del]

definition isKnownSetting :: "SettingId \<Rightarrow> bool" where
  "isKnownSetting sid =
     (sid = HEADER_TABLE_SIZE \<or> sid = NUM_PLACEHOLDERS
      \<or> sid = MAX_HEADER_LIST_SIZE \<or> sid = QPACK_BLOCKED_STREAMS)"

section \<open>Frames as values\<close>

text \<open>The write operation of a frame value.\<close>

definition writeFrame :: "bytes \<Rightarrow> frame \<Rightarrow> WriteResult \<times> bytes" where
  "writeFrame queue f =
     (case f of
        DataFrame data \<Rightarrow> writeData queue data
      | HeadersFrame data \<Rightarrow> writeHeaders queue data
      | PriorityFrame priority \<Rightarrow> writePriority queue priority
      | CancelPushFrame pushId \<Rightarrow> writeCancelPush queue pushId
      | SettingsFrame settings \<Rightarrow> writeSettings queue settings
      | PushPromiseFrame pushId data \<Rightarrow> writePushPromise queue pushId data
      | GoawayFrame lastStreamId \<Rightarrow> writeGoaway queue lastStreamId
      | MaxPushIdFrame maxPushId \<Rightarrow> writeMaxPushId queue maxPushId)"

text \<open>The frame type a frame value is written with.\<close>

definition frameType :: "frame \<Rightarrow> FrameType" where
  "frameType f =
     (case f of
        DataFrame data \<Rightarrow> DATA
      | HeadersFrame data \<Rightarrow> HEADERS
      | PriorityFrame priority \<Rightarrow> PRIORITY
      | CancelPushFrame pushId \<Rightarrow> CANCEL_PUSH
      | SettingsFrame settings \<Rightarrow> SETTINGS
      | PushPromiseFrame pushId data \<Rightarrow> PUSH_PROMISE
      | GoawayFrame lastStreamId \<Rightarrow> GOAWAY
      | MaxPushIdFrame maxPushId \<Rightarrow> MAX_PUSH_ID)"

text \<open>
  The constraints of the data model (section 3): a DATA payload is not empty; the
  prioritized type of a PRIORITY update is not the tree root; SETTINGS pairs have
  known ids; push ids are in internal form.
\<close>

definition validFrame :: "frame \<Rightarrow> bool" where
  "validFrame f =
     (case f of
        DataFrame data \<Rightarrow> data \<noteq> []
      | HeadersFrame data \<Rightarrow> True
      | PriorityFrame priority \<Rightarrow> prioritizedType priority \<noteq> TREE_ROOT
      | CancelPushFrame pushId \<Rightarrow> isInternalPushId pushId
      | SettingsFrame settings \<Rightarrow> list_all (\<lambda>pr. isKnownSetting (fst pr)) settings
      | PushPromiseFrame pushId data \<Rightarrow> isInternalPushId pushId
      | GoawayFrame lastStreamId \<Rightarrow> True
      | MaxPushIdFrame maxPushId \<Rightarrow> isInternalPushId maxPushId)"

text \<open>The payload bytes \<open>writePriority\<close> appends after the frame header.\<close>

definition priorityWire :: "PriorityUpdate \<Rightarrow> bytes" where
  "priorityWire p =
     encodePriorityFlags p # varintBytes (prioritizedElementId p)
       @ (if dependencyType p \<noteq> TREE_ROOT then varintBytes (elementDependencyId p) else [])
       @ [weight p]"

text \<open>
  The bytes of a frame as section 4.B lays them out: the type varint, the varint of the
  payload length, and the payload of the frame's kind.
\<close>

definition payloadBytes :: "frame \<Rightarrow> bytes" where
  "payloadBytes f =
     (case f of
        DataFrame data \<Rightarrow> data
      | HeadersFrame data \<Rightarrow> data
      | PriorityFrame priority \<Rightarrow> priorityWire priority
      | CancelPushFrame pushId \<Rightarrow> varintBytes (pushId AND NOT kPushIdMask)
      | SettingsFrame settings \<Rightarrow>
          concat (map (\<lambda>pr. varintBytes (fst pr) @ varintBytes (snd pr)) settings)
      | PushPromiseFrame pushId data \<Rightarrow> varintBytes (pushId AND NOT kPushIdMask) @ data
      | GoawayFrame lastStreamId \<Rightarrow> varintBytes lastStreamId
      | MaxPushIdFrame maxPushId \<Rightarrow> varintBytes (maxPushId AND NOT kPushIdMask))"

definition frameBytes :: "frame \<Rightarrow> bytes" where
  "frameBytes f =
     varintBytes (frameType f) @ varintBytes (of_nat (length (payloadBytes f)))
       @ payloadBytes f"

text \<open>
  What a frame needs for its varints to be encodable: every identifier and value that
  is written as a varint is at most \<open>kEightByteLimit\<close>, and so is the length of the payload.
\<close>

definition fitsVarints :: "frame \<Rightarrow> bool" where
  "fitsVarints f =
     ((case f of
         DataFrame data \<Rightarrow> True
       | HeadersFrame data \<Rightarrow> True
       | PriorityFrame priority \<Rightarrow>
           prioritizedElementId priority \<le> kEightByteLimit
           \<and> (if dependencyType priority \<noteq> TREE_ROOT
               then elementDependencyId priority \<le> kEightByteLimit else True)
       | CancelPushFrame pushId \<Rightarrow> pushId AND NOT kPushIdMask \<le> kEightByteLimit
       | SettingsFrame settings \<Rightarrow>
           list_all (\<lambda>pr. fst pr \<le> kEightByteLimit \<and> snd pr \<le> kEightByteLimit) settings
       | PushPromiseFrame pushId data \<Rightarrow> pushId AND NOT kPushIdMask \<le> kEightByteLimit
       | GoawayFrame lastStreamId \<Rightarrow> lastStreamId \<le> kEightByteLimit
       | MaxPushIdFrame maxPushId \<Rightarrow> maxPushId AND NOT kPushIdMask \<le> kEightByteLimit)
      \<and> length (payloadBytes f) < 2 ^ 62)"

text \<open>
  The frame a receiver can get back from the bytes of \<open>f\<close>: the \<open>elementDependencyId\<close> of
  a PRIORITY update whose dependency type is the tree root is not on the wire, so the
  receiver keeps the one its structure has (\<open>out0\<close>); everything else is as in \<open>f\<close>.
\<close>

definition received :: "PriorityUpdate \<Rightarrow> frame \<Rightarrow> frame" where
  "received out0 f =
     (case f of
        PriorityFrame priority \<Rightarrow>
          PriorityFrame (if dependencyType priority = TREE_ROOT
                         then priority\<lparr>elementDependencyId := elementDependencyId out0\<rparr>
                         else priority)
      | _ \<Rightarrow> f)"
section \<open>HeaderDecodeInfo.cpp\<close>

text \<open>
  Modelled from the spec: \<open>HeaderDecodeInfo.h\<close> and the classes \<open>onHeader\<close> calls
  (\<open>HPACKHeaderName\<close>, \<open>HTTPRequestVerifier\<close>, \<open>HTTPMessage\<close>, \<open>CodecUtil\<close>,
  \<open>folly::tryTo\<close>) are not among the sources.  A header name carries its text and the
  header code \<open>getHeaderCode()\<close> returns for it.  The message keeps what \<open>onHeader\<close>
  sets: the status and the list of header fields in the order they were added.  The
  state of the request verifier is a type parameter; its setters, the two integer
  conversions, the default reason phrase and the two \<open>CodecUtil\<close> validations are
  parameters, gathered in \<open>HeaderEnv\<close>.
\<close>

datatype HTTPHeaderCode =
    HTTP_HEADER_OTHER
  | HTTP_HEADER_COLON_METHOD
  | HTTP_HEADER_COLON_SCHEME
  | HTTP_HEADER_COLON_AUTHORITY
  | HTTP_HEADER_COLON_PATH
  | HTTP_HEADER_COLON_PROTOCOL
  | HTTP_HEADER_COLON_STATUS
  | HTTP_HEADER_CONNECTION
  | HTTP_HEADER_CONTENT_LENGTH
  | HTTP_HEADER_COMMON nat

record HPACKHeaderName =
  get :: string
  getHeaderCode :: HTTPHeaderCode

datatype DecodeError = NONE | DECODE_ERROR nat

datatype HeaderField = AddByName string string | AddByCode HTTPHeaderCode string

record HTTPMessage =
  statusCode :: int
  statusMessage :: string
  headers :: "HeaderField list"

record 'v HeaderEnv =
  setMethod :: "string \<Rightarrow> 'v \<Rightarrow> bool \<times> 'v"
  setScheme :: "string \<Rightarrow> 'v \<Rightarrow> bool \<times> 'v"
  setAuthority :: "string \<Rightarrow> 'v \<Rightarrow> bool \<times> 'v"
  setPath :: "string \<Rightarrow> 'v \<Rightarrow> bool \<times> 'v"
  setUpgradeProtocol :: "string \<Rightarrow> 'v \<Rightarrow> bool \<times> 'v"
  tryTo_int32 :: "string \<Rightarrow> int option"
  tryTo_uint32 :: "string \<Rightarrow> 32 word option"
  getDefaultReason :: "int \<Rightarrow> string"
  validateHeaderName :: "string \<Rightarrow> bool"
  validateHeaderValue :: "string \<Rightarrow> bool"

record 'v HeaderDecodeInfo =
  msg :: HTTPMessage
  verifier :: 'v
  decodeError :: DecodeError
  parsingError :: string
  isRequest :: bool
  isRequestTrailers :: bool
  hasStatus :: bool
  contentLength :: "32 word option"
  regularHeaderSeen :: bool
  pseudoHeaderSeen :: bool

definition startsWith :: "string \<Rightarrow> char \<Rightarrow> bool" where
  "startsWith s c = (case s of [] \<Rightarrow> False | x # _ \<Rightarrow> x = c)"

text \<open>\<open>onHeader\<close> returns its result and the object as the call leaves it.\<close>

definition onHeader ::
  "'v HeaderEnv \<Rightarrow> 'v HeaderDecodeInfo \<Rightarrow> HPACKHeaderName \<Rightarrow> string
     \<Rightarrow> bool \<times> 'v HeaderDecodeInfo" where
  "onHeader env this name value =
     (if decodeError this \<noteq> NONE \<or> parsingError this \<noteq> '''' then (True, this)
      else
        let headerCode = getHeaderCode name;
            nameSp = get name;
            valueSp = value in
        if startsWith nameSp (CHR '':'') then
          (let this = this\<lparr>pseudoHeaderSeen := True\<rparr> in
           if regularHeaderSeen this
             then (False, this\<lparr>parsingError := ''Illegal pseudo header name='' @ nameSp\<rparr>)
           else if isRequest this then
             (case (if headerCode = HTTP_HEADER_COLON_METHOD
                      then Some (setMethod env valueSp (verifier this))
                    else if headerCode = HTTP_HEADER_COLON_SCHEME
                      then Some (setScheme env valueSp (verifier this))
                    else if headerCode = HTTP_HEADER_COLON_AUTHORITY
                      then Some (setAuthority env valueSp (verifier this))
                    else if headerCode = HTTP_HEADER_COLON_PATH
                      then Some (setPath env valueSp (verifier this))
                    else if headerCode = HTTP_HEADER_COLON_PROTOCOL
                      then Some (setUpgradeProtocol env valueSp (verifier this))
                    else None) of
                None \<Rightarrow> (False, this\<lparr>parsingError := ''Invalid req header name='' @ nameSp\<rparr>)
              | Some (ok, v) \<Rightarrow>
                  let this = this\<lparr>verifier := v\<rparr> in
                  if \<not> ok then (False, this) else (True, this))
           else
             (if headerCode = HTTP_HEADER_COLON_STATUS then
                (if hasStatus this
                   then (False, this\<lparr>parsingError := ''Duplicate status''\<rparr>)
                 else
                   let this = this\<lparr>hasStatus := True\<rparr>;
                       code = (case tryTo_int32 env valueSp of None \<Rightarrow> - 1 | Some num \<Rightarrow> num) in
                   if code \<ge> 100 \<and> code \<le> 999
                     then (True, this\<lparr>msg := (msg this)\<lparr>statusCode := code,
                                    statusMessage := getDefaultReason env code\<rparr>\<rparr>)
                   else (False, this\<lparr>parsingError := ''Malformed status code='' @ valueSp\<rparr>))
              else (False, this\<lparr>parsingError := ''Invalid resp header name='' @ nameSp\<rparr>)))
        else
          (let this = this\<lparr>regularHeaderSeen := True\<rparr> in
           if headerCode = HTTP_HEADER_CONNECTION
             then (False, this\<lparr>parsingError := ''HTTP/2 Message with Connection header''\<rparr>)
           else
             case (if headerCode = HTTP_HEADER_CONTENT_LENGTH then
                     (let cl = (case tryTo_uint32 env valueSp of None \<Rightarrow> 0 | Some num \<Rightarrow> num) in
                      if (case contentLength this of
                            None \<Rightarrow> False
                          | Some recorded \<Rightarrow> recorded \<noteq> cl)
                        then Inl (this\<lparr>parsingError := ''Multiple content-length headers''\<rparr>)
                      else Inr (this\<lparr>contentLength := Some cl\<rparr>))
                   else Inr this) of
               Inl this \<Rightarrow> (False, this)
             | Inr this \<Rightarrow>
                 let nameOk = (headerCode \<noteq> HTTP_HEADER_OTHER \<or> validateHeaderName env nameSp);
                     valueOk = validateHeaderValue env valueSp in
                 if \<not> nameOk \<or> \<not> valueOk
                   then (False, this\<lparr>parsingError := ''Bad header value: name='' @ nameSp
                                                     @ '' value='' @ valueSp\<rparr>)
                 else if headerCode = HTTP_HEADER_OTHER
                   then (True, this\<lparr>msg := (msg this)\<lparr>headers :=
                                  headers (msg this) @ [AddByName nameSp valueSp]\<rparr>\<rparr>)
                 else (True, this\<lparr>msg := (msg this)\<lparr>headers :=
                                  headers (msg this) @ [AddByCode headerCode valueSp]\<rparr>\<rparr>)))"

text \<open>A sequence of \<open>onHeader\<close> calls on one object: the results, in order, and the object
  after the last call.\<close>

fun onHeader_calls ::
  "'v HeaderEnv \<Rightarrow> 'v HeaderDecodeInfo \<Rightarrow> (HPACKHeaderName \<times> string) list
     \<Rightarrow> bool list \<times> 'v HeaderDecodeInfo" where
  "onHeader_calls env this [] = ([], this)"
| "onHeader_calls env this ((name, value) # rest) =
     (case onHeader env this name value of
        (r, this1) \<Rightarrow>
          (case onHeader_calls env this1 rest of (rs, this2) \<Rightarrow> (r # rs, this2)))"

text \<open>
  An environment for examples: the verifier accepts everything, the conversions read
  plain decimal digits (\<open>tryTo_uint32\<close> up to \<open>2^32 - 1\<close>), names are valid and a value is
  valid when it has no CR, LF or NUL.  And a response decoder before its first header.
\<close>

definition digitValue :: "char \<Rightarrow> nat option" where
  "digitValue c =
     (let n = (of_char c :: nat) in if 48 \<le> n \<and> n \<le> 57 then Some (n - 48) else None)"

fun decimalFrom :: "nat \<Rightarrow> string \<Rightarrow> nat option" where
  "decimalFrom acc [] = Some acc"
| "decimalFrom acc (c # cs) =
     (case digitValue c of None \<Rightarrow> None | Some d \<Rightarrow> decimalFrom (10 * acc + d) cs)"

definition decimal :: "string \<Rightarrow> nat option" where
  "decimal s = (if s = [] then None else decimalFrom 0 s)"

definition exampleEnv :: "unit HeaderEnv" where
  "exampleEnv =
     \<lparr>setMethod = (\<lambda>s v. (True, v)), setScheme = (\<lambda>s v. (True, v)),
      setAuthority = (\<lambda>s v. (True, v)), setPath = (\<lambda>s v. (True, v)),
      setUpgradeProtocol = (\<lambda>s v. (True, v)),
      tryTo_int32 = (\<lambda>s. case decimal s of
                             None \<Rightarrow> None
                           | Some n \<Rightarrow> if n < 2 ^ 31 then Some (int n) else None),
      tryTo_uint32 = (\<lambda>s. case decimal s of
                              None \<Rightarrow> None
                            | Some n \<Rightarrow> if n < 2 ^ 32 then Some (of_nat n) else None),
      getDefaultReason = (\<lambda>code. []),
      validateHeaderName = (\<lambda>s. True),
      validateHeaderValue = (\<lambda>s. list_all (\<lambda>c. of_char c \<noteq> (13::nat) \<and> of_char c \<noteq> (10::nat)
                                              \<and> of_char c \<noteq> (0::nat)) s)\<rparr>"

definition freshInfo :: "unit HeaderDecodeInfo" where
  "freshInfo =
     \<lparr>msg = \<lparr>statusCode = 0, statusMessage = [], headers = []\<rparr>, verifier = (),
      decodeError = NONE, parsingError = [], isRequest = False, isRequestTrailers = False,
      hasStatus = False, contentLength = None, regularHeaderSeen = False,
      pseudoHeaderSeen = False\<rparr>"

definition contentLengthName :: HPACKHeaderName where
  "contentLengthName = \<lparr>get = ''content-length'', getHeaderCode = HTTP_HEADER_CONTENT_LENGTH\<rparr>"

text \<open>The value \<open>cl\<close> that \<open>onHeader\<close> computes from a Content-Length value (0 when the
  conversion fails), and a header that is a Content-Length with a given \<open>cl\<close>.\<close>

definition contentLengthOf :: "'v HeaderEnv \<Rightarrow> string \<Rightarrow> 32 word" where
  "contentLengthOf env value = (case tryTo_uint32 env value of None \<Rightarrow> 0 | Some num \<Rightarrow> num)"

definition isContentLength :: "'v HeaderEnv \<Rightarrow> 32 word \<Rightarrow> HPACKHeaderName \<times> string \<Rightarrow> bool" where
  "isContentLength env c nv =
     (\<not> startsWith (get (fst nv)) (CHR '':'')
      \<and> getHeaderCode (fst nv) = HTTP_HEADER_CONTENT_LENGTH
      \<and> contentLengthOf env (snd nv) = c)"


text \<open>A name that \<open>onHeader\<close> treats as Content-Length: a regular header with that code.\<close>

definition isContentLengthName :: "HPACKHeaderName \<Rightarrow> bool" where
  "isContentLengthName name =
     (\<not> startsWith (get name) (CHR '':'') \<and> getHeaderCode name = HTTP_HEADER_CONTENT_LENGTH)"

text \<open>
  \<open>folly::tryTo\<close> skips white space before and after the number.  The environment
  \<open>spaceEnv\<close> is \<open>exampleEnv\<close> with a \<open>tryTo_uint32\<close> that does so.
\<close>

definition isSpace :: "char \<Rightarrow> bool" where
  "isSpace c = (let n = (of_char c :: nat) in n = 32 \<or> (9 \<le> n \<and> n \<le> 13))"

definition trim :: "string \<Rightarrow> string" where
  "trim s = rev (dropWhile isSpace (rev (dropWhile isSpace s)))"

definition spaceEnv :: "unit HeaderEnv" where
  "spaceEnv = exampleEnv\<lparr>tryTo_uint32 := (\<lambda>s. tryTo_uint32 exampleEnv (trim s))\<rparr>"
section \<open>Facts about the varint codec\<close>

lemma writeBE_numeral:
  "writeBE (numeral k) v = ucast (drop_bit (8 * pred_numeral k) v) # writeBE (pred_numeral k) v"
  by (simp add: numeral_eq_Suc)

lemma length_writeBE: "length (writeBE n v) = n"
  by (induction n) auto

lemma foldl_writeBE:
  "foldl (\<lambda>acc b. push_bit 8 acc OR ucast b) a (writeBE n v)
     = push_bit (8 * n) a OR take_bit (8 * n) (v::u64)"
proof (induction n arbitrary: a)
  case 0
  then show ?case by simp
next
  case (Suc n)
  let ?f = "\<lambda>(acc::u64) (b::byte). push_bit 8 acc OR ucast b"
  have "foldl ?f a (writeBE (Suc n) v)
      = foldl ?f (push_bit 8 a OR take_bit 8 (drop_bit (8 * n) v)) (writeBE n v)"
    by (simp add: unsigned_ucast_eq)
  also have "\<dots> = push_bit (8 * n) (push_bit 8 a OR take_bit 8 (drop_bit (8 * n) v))
                  OR take_bit (8 * n) v"
    by (rule Suc.IH)
  also have "\<dots> = push_bit (8 * Suc n) a OR take_bit (8 * Suc n) v"
    by (rule bit_word_eqI) (auto simp: bit_simps add.commute)
  finally show ?case .
qed

lemma readBE_writeBE: "readBE (writeBE n v) = take_bit (8 * n) v"
  by (simp add: readBE_def foldl_writeBE)

lemma le_imp_take_bit: "unat (v::u64) < 2 ^ n \<Longrightarrow> take_bit n v = v"
  by (metis take_bit_nat_eq_self_iff unsigned_take_bit_eq word_eq_iff_unsigned)

lemma take_bit_bitD: "take_bit m (v::u64) = v \<Longrightarrow> bit v i \<Longrightarrow> i < m"
  by (metis bit_take_bit_iff)

lemma class0: "take_bit 6 (v::u64) = v \<Longrightarrow> drop_bit 6 (ucast v :: byte) = 0"
  by (rule bit_word_eqI) (auto simp: bit_simps dest: take_bit_bitD)

lemma class_hi: "take_bit (8 * n + 6) (v::u64) = v \<Longrightarrow> drop_bit 6 (ucast (drop_bit (8 * n) v) :: byte) = 0"
  by (rule bit_word_eqI) (auto simp: bit_simps dest: take_bit_bitD)

lemma class1:
  assumes "take_bit 14 (v::u64) = v"
  shows "drop_bit 6 (ucast (drop_bit 8 (v OR 0x4000)) :: byte) = 1"
  using class_hi[of 1 v] assms by (simp add: drop_bit_or unsigned_or_eq)

lemma class2:
  assumes "take_bit 30 (v::u64) = v"
  shows "drop_bit 6 (ucast (drop_bit 24 (v OR 0x80000000)) :: byte) = 2"
  using class_hi[of 3 v] assms by (simp add: drop_bit_or unsigned_or_eq)

lemma class3:
  assumes "take_bit 62 (v::u64) = v"
  shows "drop_bit 6 (ucast (drop_bit 56 (v OR 0xC000000000000000)) :: byte) = 3"
  using class_hi[of 7 v] assms by (simp add: drop_bit_or unsigned_or_eq)

lemma val2:
  assumes "take_bit 14 (v::u64) = v" shows "take_bit 14 (take_bit 16 (v OR 0x4000)) = v"
  using assms by (simp add: take_bit_or)

lemma val4:
  assumes "take_bit 30 (v::u64) = v" shows "take_bit 30 (take_bit 32 (v OR 0x80000000)) = v"
  using assms by (simp add: take_bit_or)

lemma val8:
  assumes "take_bit 62 (v::u64) = v" shows "take_bit 62 (take_bit 64 (v OR 0xC000000000000000)) = v"
  using assms by (simp add: take_bit_or)

lemma writeBE_pos: "0 < k \<Longrightarrow> writeBE k x = ucast (drop_bit (8 * (k - 1)) x) # writeBE (k - 1) x"
  by (cases k) auto

lemma decode_writeBE:
  assumes k: "0 < k"
    and c: "drop_bit 6 (ucast (drop_bit (8 * (k - 1)) x) :: byte) = c"
    and kc: "2 ^ unat c = k"
    and am: "k \<le> unat atMost'"
  shows "decodeQuicInteger (writeBE k x @ rest) atMost'
           = Some ((take_bit (8 * k - 2) (take_bit (8 * k) x), of_nat k), rest)"
proof -
  obtain bs where bs: "writeBE k x = ucast (drop_bit (8 * (k - 1)) x) # bs"
    using writeBE_pos[OF k] by blast
  have len: "length (writeBE k x) = k" by (rule length_writeBE)
  have "decodeQuicInteger (writeBE k x @ rest) atMost'
      = Some ((take_bit (8 * k - 2) (readBE (take k (writeBE k x @ rest))), of_nat k),
              drop k (writeBE k x @ rest))"
    unfolding decodeQuicInteger_def using c kc am len by (simp add: bs Let_def)
  then show ?thesis using len by (simp add: readBE_writeBE)
qed

lemma decode_varintBytes:
  assumes sz: "getQuicIntegerSize v = Inr n" and am: "n \<le> atMost'"
  shows "decodeQuicInteger (varintBytes v @ rest) atMost' = Some ((v, n), rest)"
proof -
  consider (c1) "v \<le> kOneByteLimit"
    | (c2) "\<not> v \<le> kOneByteLimit" "v \<le> kTwoByteLimit"
    | (c4) "\<not> v \<le> kOneByteLimit" "\<not> v \<le> kTwoByteLimit" "v \<le> kFourByteLimit"
    | (c8) "\<not> v \<le> kOneByteLimit" "\<not> v \<le> kTwoByteLimit" "\<not> v \<le> kFourByteLimit"
           "v \<le> kEightByteLimit"
    using sz by (auto simp: getQuicIntegerSize_def split: if_splits)
  then show ?thesis
  proof cases
    case c1
    then have t: "take_bit 6 v = v"
      by (intro le_imp_take_bit) (simp add: kOneByteLimit_def word_le_nat_alt)
    have n: "n = 1" using sz c1 by (simp add: getQuicIntegerSize_def)
    have vb: "varintBytes v = writeBE 1 v"
      using c1 by (simp add: varintBytes_def encodeQuicInteger_def)
    have "1 \<le> unat atMost'" using am n by (simp add: word_le_nat_alt)
    from decode_writeBE[of 1 v 0 atMost' rest] this class0[OF t] t
    show ?thesis by (simp add: vb n)
  next
    case c2
    then have t: "take_bit 14 v = v"
      by (intro le_imp_take_bit) (simp add: kTwoByteLimit_def word_le_nat_alt)
    have n: "n = 2" using sz c2 by (simp add: getQuicIntegerSize_def)
    have vb: "varintBytes v = writeBE 2 (v OR 0x4000)"
      using c2 by (simp add: varintBytes_def encodeQuicInteger_def)
    have "2 \<le> unat atMost'" using am n by (simp add: word_le_nat_alt)
    from decode_writeBE[of 2 "v OR 0x4000" 1 atMost' rest] this class1[OF t] val2[OF t]
    show ?thesis by (simp add: vb n)
  next
    case c4
    then have t: "take_bit 30 v = v"
      by (intro le_imp_take_bit) (simp add: kFourByteLimit_def word_le_nat_alt)
    have n: "n = 4" using sz c4 by (simp add: getQuicIntegerSize_def)
    have vb: "varintBytes v = writeBE 4 (v OR 0x80000000)"
      using c4 by (simp add: varintBytes_def encodeQuicInteger_def)
    have "4 \<le> unat atMost'" using am n by (simp add: word_le_nat_alt)
    from decode_writeBE[of 4 "v OR 0x80000000" 2 atMost' rest] this class2[OF t] val4[OF t]
    show ?thesis by (simp add: vb n)
  next
    case c8
    then have t: "take_bit 62 v = v"
      by (intro le_imp_take_bit) (simp add: kEightByteLimit_def word_le_nat_alt)
    have n: "n = 8" using sz c8 by (simp add: getQuicIntegerSize_def)
    have vb: "varintBytes v = writeBE 8 (v OR 0xC000000000000000)"
      using c8 by (simp add: varintBytes_def encodeQuicInteger_def)
    have "8 \<le> unat atMost'" using am n by (simp add: word_le_nat_alt)
    from decode_writeBE[of 8 "v OR 0xC000000000000000" 3 atMost' rest] this class3[OF t] val8[OF t]
    show ?thesis by (simp add: vb n)
  qed
qed

section \<open>Facts about the writers\<close>

lemma limit_chain:
  "v \<le> kOneByteLimit \<Longrightarrow> v \<le> kTwoByteLimit"
  "v \<le> kTwoByteLimit \<Longrightarrow> v \<le> kFourByteLimit"
  "v \<le> kFourByteLimit \<Longrightarrow> v \<le> kEightByteLimit"
  by (erule order_trans, simp add: kOneByteLimit_def kTwoByteLimit_def
        kFourByteLimit_def kEightByteLimit_def)+

lemma getQuicIntegerSize_Inl:
  "getQuicIntegerSize v = Inl e \<longleftrightarrow> (e = INTERNAL_ERROR \<and> \<not> v \<le> kEightByteLimit)"
  using limit_chain[of v] by (auto simp: getQuicIntegerSize_def)

lemma getQuicIntegerSize_Inr:
  "getQuicIntegerSize v = Inr n \<Longrightarrow> v \<le> kEightByteLimit"
  using limit_chain[of v] by (auto simp: getQuicIntegerSize_def split: if_splits)

lemma getQuicIntegerSize_cases:
  obtains (err) "getQuicIntegerSize v = Inl INTERNAL_ERROR" "\<not> v \<le> kEightByteLimit"
        | (ok) n where "getQuicIntegerSize v = Inr n" "v \<le> kEightByteLimit"
  by (cases "getQuicIntegerSize v")
     (auto simp: getQuicIntegerSize_Inl dest: getQuicIntegerSize_Inr)

lemma encodeQuicInteger_Inr:
  assumes "getQuicIntegerSize v = Inr n"
  shows "encodeQuicInteger v q = (Inr n, q @ varintBytes v)"
    and "length (varintBytes v) = unat n"
  using assms
  by (auto simp: getQuicIntegerSize_def encodeQuicInteger_def varintBytes_def length_writeBE
           split: if_splits)

lemma encodeQuicInteger_Inl:
  assumes "getQuicIntegerSize v = Inl e"
  shows "encodeQuicInteger v q = (Inl e, q)"
  using assms
  by (auto simp: getQuicIntegerSize_def encodeQuicInteger_def split: if_splits)

lemma snd_encodeQuicInteger: "snd (encodeQuicInteger v q) = q @ varintBytes v"
  by (simp add: encodeQuicInteger_def varintBytes_def)

lemma writeFrameHeader_Inr:
  assumes "getQuicIntegerSize ty = Inr a" "getQuicIntegerSize len = Inr b"
  shows "writeFrameHeader q ty len = (Inr (a + b), q @ varintBytes ty @ varintBytes len)"
  using assms by (simp add: writeFrameHeader_def encodeQuicInteger_Inr)

lemma writeFrameHeader_length_error:
  assumes "getQuicIntegerSize ty = Inr a" "\<not> len \<le> kEightByteLimit"
  shows "writeFrameHeader q ty len = (Inl INTERNAL_ERROR, q @ varintBytes ty)"
proof -
  have "getQuicIntegerSize len = Inl INTERNAL_ERROR"
    using assms(2) by (simp add: getQuicIntegerSize_Inl)
  then show ?thesis using assms(1)
    by (simp add: writeFrameHeader_def encodeQuicInteger_Inr encodeQuicInteger_Inl)
qed

lemma frame_type_sizes:
  "getQuicIntegerSize DATA = Inr 1" "getQuicIntegerSize HEADERS = Inr 1"
  "getQuicIntegerSize PRIORITY = Inr 1" "getQuicIntegerSize CANCEL_PUSH = Inr 1"
  "getQuicIntegerSize SETTINGS = Inr 1" "getQuicIntegerSize PUSH_PROMISE = Inr 1"
  "getQuicIntegerSize GOAWAY = Inr 1" "getQuicIntegerSize MAX_PUSH_ID = Inr 1"
  by (simp_all add: getQuicIntegerSize_def kOneByteLimit_def DATA_def HEADERS_def PRIORITY_def
        CANCEL_PUSH_def SETTINGS_def PUSH_PROMISE_def GOAWAY_def MAX_PUSH_ID_def)

lemma varintBytes_small: "v \<le> kOneByteLimit \<Longrightarrow> varintBytes v = [ucast v]"
  by (simp add: varintBytes_def encodeQuicInteger_def)

lemma isInternalPushId_or_mask: "isInternalPushId (v OR kPushIdMask)"
proof -
  have "(v OR kPushIdMask) AND kPushIdMask = kPushIdMask"
    by (rule bit_word_eqI) (auto simp: bit_simps)
  moreover have "kPushIdMask \<noteq> 0" by (simp add: kPushIdMask_def)
  ultimately show ?thesis by (simp add: isInternalPushId_def)
qed

lemma isExternalPushId_clear: "isExternalPushId (v AND NOT kPushIdMask)"
proof -
  have "(v AND NOT kPushIdMask) AND kPushIdMask = 0"
    by (rule bit_word_eqI) (auto simp: bit_simps)
  then show ?thesis by (simp add: isExternalPushId_def)
qed

lemma parseCancelPush_internal:
  "parseCancelPush cursor header out0 = (None, cursor1, pushId) \<Longrightarrow> isInternalPushId pushId"
  by (auto simp: parseCancelPush_def Let_def isInternalPushId_or_mask
           split: option.splits prod.splits if_splits)

lemma parseMaxPushId_internal:
  "parseMaxPushId cursor header out0 = (None, cursor1, pushId) \<Longrightarrow> isInternalPushId pushId"
  by (auto simp: parseMaxPushId_def Let_def isInternalPushId_or_mask
           split: option.splits prod.splits if_splits)

lemma parsePushPromise_internal:
  "parsePushPromise cursor header out0 outBuf = Some (None, cursor1, pushId, buf)
     \<Longrightarrow> isInternalPushId pushId"
  by (auto simp: parsePushPromise_def Let_def isInternalPushId_or_mask
           split: option.splits prod.splits if_splits)

lemma writeSimpleFrame_Inr:
  assumes "writeSimpleFrame q ty data = (Inr n, q1)" and "getQuicIntegerSize ty = Inr a"
  shows "q1 = q @ varintBytes ty @ varintBytes (computeChainDataLength data) @ data"
    and "computeChainDataLength data \<le> kEightByteLimit"
proof -
  show le: "computeChainDataLength data \<le> kEightByteLimit"
  proof (rule ccontr)
    assume "\<not> ?thesis"
    from writeFrameHeader_length_error[OF assms(2) this, of q] assms(1)
    show False by (simp add: writeSimpleFrame_def Let_def)
  qed
  then obtain b where "getQuicIntegerSize (computeChainDataLength data) = Inr b"
    by (cases "computeChainDataLength data" rule: getQuicIntegerSize_cases) auto
  from writeFrameHeader_Inr[OF assms(2) this, of q] assms(1)
  show "q1 = q @ varintBytes ty @ varintBytes (computeChainDataLength data) @ data"
    by (auto simp: writeSimpleFrame_def Let_def)
qed

lemma writeCancelPush_wire:
  assumes "writeCancelPush q pushId = (Inr n, q1)"
  shows "q1 = q @ varintBytes CANCEL_PUSH
              @ varintBytes (computeChainDataLength (varintBytes (pushId AND NOT kPushIdMask)))
              @ varintBytes (pushId AND NOT kPushIdMask)"
  using assms writeSimpleFrame_Inr(1)[OF _ frame_type_sizes(4)]
  by (auto simp: writeCancelPush_def Let_def snd_encodeQuicInteger split: sum.splits)

lemma writeMaxPushId_wire:
  assumes "writeMaxPushId q pushId = (Inr n, q1)"
  shows "q1 = q @ varintBytes MAX_PUSH_ID
              @ varintBytes (computeChainDataLength (varintBytes (pushId AND NOT kPushIdMask)))
              @ varintBytes (pushId AND NOT kPushIdMask)"
  using assms writeSimpleFrame_Inr(1)[OF _ frame_type_sizes(8)]
  by (auto simp: writeMaxPushId_def Let_def snd_encodeQuicInteger split: sum.splits)

lemma writeFrameHeader_InrD:
  assumes "writeFrameHeader q ty len = (Inr n, q1)"
  shows "q1 = q @ varintBytes ty @ varintBytes len"
    and "\<exists>a b. getQuicIntegerSize ty = Inr a \<and> getQuicIntegerSize len = Inr b \<and> n = a + b"
proof -
  have *: "\<exists>a b. getQuicIntegerSize ty = Inr a \<and> getQuicIntegerSize len = Inr b \<and> n = a + b
          \<and> q1 = q @ varintBytes ty @ varintBytes len"
  proof (cases ty rule: getQuicIntegerSize_cases)
    case err
    then show ?thesis using assms by (simp add: writeFrameHeader_def encodeQuicInteger_Inl)
  next
    case (ok a)
    show ?thesis
    proof (cases len rule: getQuicIntegerSize_cases)
      case err
      then show ?thesis using assms ok
        by (simp add: writeFrameHeader_def encodeQuicInteger_Inl encodeQuicInteger_Inr)
    next
      case (ok b)
      then show ?thesis using assms \<open>getQuicIntegerSize ty = Inr a\<close>
        by (auto simp: writeFrameHeader_def encodeQuicInteger_Inr)
    qed
  qed
  from * show "q1 = q @ varintBytes ty @ varintBytes len" by blast
  from * show "\<exists>a b. getQuicIntegerSize ty = Inr a \<and> getQuicIntegerSize len = Inr b \<and> n = a + b"
    by blast
qed

lemma writePushPromise_wire:
  assumes "writePushPromise q pushId data = (Inr n, q1)"
  shows "\<exists>len. q1 = q @ varintBytes PUSH_PROMISE @ varintBytes len
              @ varintBytes (pushId AND NOT kPushIdMask) @ data"
  using assms
  by (auto simp: writePushPromise_def Let_def snd_encodeQuicInteger
           split: sum.splits prod.splits dest!: writeFrameHeader_InrD(1))

lemma getQuicIntegerSize_le8: "getQuicIntegerSize v = Inr n \<Longrightarrow> n \<le> 8"
  by (auto simp: getQuicIntegerSize_def split: if_splits)

lemma decode_own_varint:
  assumes "getQuicIntegerSize v = Inr n"
  shows "decodeQuicInteger (varintBytes v @ rest) 8 = Some ((v, n), rest)"
  using decode_varintBytes[OF assms getQuicIntegerSize_le8[OF assms]] .

text \<open>
  The writers that compute the size of an identifier before they write return the error
  of \<open>getQuicIntegerSize\<close> with the queue as it was.
\<close>

lemma writeSettings_size_error:
  assumes "\<exists>pr\<in>set settings. \<not> fst pr \<le> kEightByteLimit \<or> \<not> snd pr \<le> kEightByteLimit"
  shows "writeSettings_size settings tot = Inl INTERNAL_ERROR"
  using assms
proof (induction settings arbitrary: tot)
  case Nil
  then show ?case by simp
next
  case (Cons s settings)
  show ?case
  proof (cases "fst s" rule: getQuicIntegerSize_cases)
    case err
    then show ?thesis by simp
  next
    case (ok a)
    show ?thesis
    proof (cases "snd s" rule: getQuicIntegerSize_cases)
      case err
      then show ?thesis using ok by simp
    next
      case (ok b)
      with \<open>fst s \<le> kEightByteLimit\<close> Cons.prems
      have "\<exists>pr\<in>set settings. \<not> fst pr \<le> kEightByteLimit \<or> \<not> snd pr \<le> kEightByteLimit"
        by auto
      from Cons.IH[OF this] ok \<open>getQuicIntegerSize (fst s) = Inr a\<close>
      show ?thesis by simp
    qed
  qed
qed

lemma id_error_leaves_queue:
  "\<not> prioritizedElementId p \<le> kEightByteLimit
     \<Longrightarrow> writePriority q p = (Inl INTERNAL_ERROR, q)"
  "dependencyType p \<noteq> TREE_ROOT \<Longrightarrow> \<not> elementDependencyId p \<le> kEightByteLimit
     \<Longrightarrow> writePriority q p = (Inl INTERNAL_ERROR, q)"
  "\<exists>pr\<in>set settings. \<not> fst pr \<le> kEightByteLimit \<or> \<not> snd pr \<le> kEightByteLimit
     \<Longrightarrow> writeSettings q settings = (Inl INTERNAL_ERROR, q)"
  "\<not> lastStreamId \<le> kEightByteLimit
     \<Longrightarrow> writeGoaway q lastStreamId = (Inl INTERNAL_ERROR, q)"
  "\<not> (pushId AND NOT kPushIdMask) \<le> kEightByteLimit
     \<Longrightarrow> writeCancelPush q pushId = (Inl INTERNAL_ERROR, q)"
  "\<not> (pushId AND NOT kPushIdMask) \<le> kEightByteLimit
     \<Longrightarrow> writePushPromise q pushId data = (Inl INTERNAL_ERROR, q)"
  "\<not> (pushId AND NOT kPushIdMask) \<le> kEightByteLimit
     \<Longrightarrow> writeMaxPushId q pushId = (Inl INTERNAL_ERROR, q)"
proof -
  show "writeCancelPush q pushId = (Inl INTERNAL_ERROR, q)"
    if "\<not> (pushId AND NOT kPushIdMask) \<le> kEightByteLimit"
    using that getQuicIntegerSize_Inl[of "pushId AND NOT kPushIdMask" INTERNAL_ERROR]
    by (simp add: writeCancelPush_def)
  show "writePushPromise q pushId data = (Inl INTERNAL_ERROR, q)"
    if "\<not> (pushId AND NOT kPushIdMask) \<le> kEightByteLimit"
    using that getQuicIntegerSize_Inl[of "pushId AND NOT kPushIdMask" INTERNAL_ERROR]
    by (simp add: writePushPromise_def)
  show "writeMaxPushId q pushId = (Inl INTERNAL_ERROR, q)"
    if "\<not> (pushId AND NOT kPushIdMask) \<le> kEightByteLimit"
    using that getQuicIntegerSize_Inl[of "pushId AND NOT kPushIdMask" INTERNAL_ERROR]
    by (simp add: writeMaxPushId_def)
  show "writePriority q p = (Inl INTERNAL_ERROR, q)"
    if "\<not> prioritizedElementId p \<le> kEightByteLimit"
    using that getQuicIntegerSize_Inl[of "prioritizedElementId p" INTERNAL_ERROR]
    by (simp add: writePriority_def Let_def)
  show "writePriority q p = (Inl INTERNAL_ERROR, q)"
    if "dependencyType p \<noteq> TREE_ROOT" "\<not> elementDependencyId p \<le> kEightByteLimit"
    using that getQuicIntegerSize_Inl[of "elementDependencyId p" INTERNAL_ERROR]
    by (cases "prioritizedElementId p" rule: getQuicIntegerSize_cases)
       (simp_all add: writePriority_def Let_def)
  show "writeSettings q settings = (Inl INTERNAL_ERROR, q)"
    if "\<exists>pr\<in>set settings. \<not> fst pr \<le> kEightByteLimit \<or> \<not> snd pr \<le> kEightByteLimit"
    using writeSettings_size_error[OF that] by (simp add: writeSettings_def)
  show "writeGoaway q lastStreamId = (Inl INTERNAL_ERROR, q)"
    if "\<not> lastStreamId \<le> kEightByteLimit"
    using that getQuicIntegerSize_Inl[of lastStreamId INTERNAL_ERROR]
    by (simp add: writeGoaway_def)
qed

section \<open>Facts about the streaming parser\<close>

lemma loop_payload_incomplete:
  assumes "frameState this = FRAME_PAYLOAD" and "bufLen < length' (curHeader this)"
  shows "onFramedIngress_loop h this cursor bufLen parsedTot events
           = Some (this, parsedTot, events)"
proof -
  have "\<not> length' (curHeader this) \<le> bufLen" using assms(2) by (simp add: not_le)
  then show ?thesis using assms(1)
    by (subst onFramedIngress_loop.simps) (simp add: onFramedIngress_body_def Let_def)
qed

lemma body_payload_Continue:
  assumes "frameState this = FRAME_PAYLOAD"
    and "onFramedIngress_body h this cursor bufLen events
           = Continue (this1, cursor1, parsed, events1)"
  shows "length' (curHeader this) \<le> bufLen" and "parsed = length' (curHeader this)"
    and "frameState this1 = FRAME_HEADER_TYPE"
  using assms
  by (auto simp: onFramedIngress_body_def Let_def split: if_splits option.splits prod.splits)

lemma checkConnectionError_None: "checkConnectionError this None events = (False, this, events)"
  by (simp add: checkConnectionError_def)

lemma of_nat_less_word:
  assumes "n < unat (w::u64)" shows "(of_nat n :: u64) < w"
proof -
  have "n < 2 ^ LENGTH(64)" using assms unsigned_less[of w, where 'a=nat] by simp
  then have "unat (of_nat n :: u64) = n" by (rule of_nat_inverse[OF refl])
  then show ?thesis using assms by (simp add: word_less_nat_alt)
qed

lemma onFramedIngress_payload_incomplete:
  assumes "frameState this = FRAME_PAYLOAD" and "length buf < unat (length' (curHeader this))"
  shows "onFramedIngress h this buf = Some (0, this, [])"
proof (cases "connError this")
  case None
  have "onFramedIngress_loop h this buf (of_nat (length buf)) 0 [] = Some (this, 0, [])"
    using assms by (intro loop_payload_incomplete of_nat_less_word)
  then show ?thesis using None
    by (simp add: onFramedIngress_def checkConnectionError_None)
next
  case (Some e)
  then show ?thesis by (simp add: onFramedIngress_def)
qed

lemma onFramedIngress_after_error:
  "connError this \<noteq> None \<Longrightarrow> onFramedIngress h this buf = Some (0, this, [])"
  by (simp add: onFramedIngress_def)

lemma calls_after_error:
  "connError this \<noteq> None \<Longrightarrow>
     onFramedIngress_calls h this bufs = Some (this, replicate (length bufs) (0, []))"
  by (induction bufs) (simp_all add: onFramedIngress_after_error)

lemma surfaced_no_error: "e \<in> set (surfaced res f) \<Longrightarrow> \<not> isOnError e"
  by (auto simp: surfaced_def split: if_splits)

lemma parseFrame_no_error:
  "parseFrame h hdr cursor = Some (res, cursor1, evs) \<Longrightarrow> e \<in> set evs \<Longrightarrow> \<not> isOnError e"
  by (auto simp: parseFrame_def split: if_splits option.splits prod.splits
           dest: surfaced_no_error)

lemma body_events:
  assumes "onFramedIngress_body h this cursor bufLen events = Break (this1, cursor1, parsed, events1)
         \<or> onFramedIngress_body h this cursor bufLen events = Continue (this1, cursor1, parsed, events1)"
  shows "\<exists>new. events1 = events @ new \<and> (\<forall>e\<in>set new. \<not> isOnError e)"
proof (cases "frameState this")
  case FRAME_HEADER_TYPE
  with assms show ?thesis
    by (auto simp: onFramedIngress_body_def Let_def split: option.splits if_splits prod.splits)
next
  case FRAME_HEADER_LENGTH
  with assms show ?thesis
    by (auto simp: onFramedIngress_body_def Let_def split: option.splits if_splits prod.splits)
next
  case FRAME_PAYLOAD
  with assms show ?thesis
    by (auto simp: onFramedIngress_body_def Let_def split: option.splits if_splits prod.splits
             dest: parseFrame_no_error)
next
  case FRAME_PAYLOAD_STREAMING
  with assms show ?thesis
    by (auto simp: onFramedIngress_body_def Let_def split: option.splits if_splits prod.splits
             dest: surfaced_no_error)
next
  case FRAME_PAYLOAD_PARTIALLY_RELIABLE_STREAMING
  with assms show ?thesis
    by (auto simp: onFramedIngress_body_def Let_def split: option.splits if_splits prod.splits)
qed

lemma loop_events:
  "onFramedIngress_loop h this cursor bufLen parsedTot events = Some (this1, n, events1)
     \<Longrightarrow> \<exists>new. events1 = events @ new \<and> (\<forall>e\<in>set new. \<not> isOnError e)"
proof (induction h this cursor bufLen parsedTot events rule: onFramedIngress_loop.induct)
  case (1 h this cursor bufLen parsedTot events)
  show ?case
  proof (cases "connError this = None \<and> bufLen > 0 \<and> \<not> parserPaused this")
    case False
    with "1.prems" show ?thesis by (subst (asm) onFramedIngress_loop.simps) auto
  next
    case True
    show ?thesis
    proof (cases "onFramedIngress_body h this cursor bufLen events")
      case Abort
      with True "1.prems" show ?thesis by (subst (asm) onFramedIngress_loop.simps) auto
    next
      case (Break x)
      obtain t c p ev where x: "x = (t, c, p, ev)" by (cases x) auto
      from True "1.prems" Break x have "events1 = ev"
        by (subst (asm) onFramedIngress_loop.simps) auto
      with body_events[of h this cursor bufLen events t c p ev] Break x show ?thesis by auto
    next
      case (Continue x)
      obtain t c p ev where x: "x = (t, c, p, ev)" by (cases x) auto
      from True "1.prems" Continue x have ok: "p \<le> bufLen"
        and rec: "onFramedIngress_loop h (t\<lparr>totalBytesParsed := totalBytesParsed t + p\<rparr>) c
                    (bufLen - p) (parsedTot + p) ev = Some (this1, n, events1)"
        by (subst (asm) onFramedIngress_loop.simps; auto split: if_splits)+
      from ok have "\<not> \<not> p \<le> bufLen" by simp
      from "1.IH"[OF True Continue x[symmetric] refl refl this rec]
      obtain new where n1: "events1 = ev @ new" "\<forall>e\<in>set new. \<not> isOnError e" by auto
      from body_events[of h this cursor bufLen events t c p ev] Continue x
      obtain new0 where n0: "ev = events @ new0" "\<forall>e\<in>set new0. \<not> isOnError e" by auto
      from n0 n1 show ?thesis by auto
    qed
  qed
qed

lemma errorOnlyLast_no_error: "\<forall>e\<in>set xs. \<not> isOnError e \<Longrightarrow> errorOnlyLast xs"
  by (induction xs) auto

lemma errorOnlyLast_append:
  "\<forall>e\<in>set xs. \<not> isOnError e \<Longrightarrow> errorOnlyLast ys \<Longrightarrow> errorOnlyLast (xs @ ys)"
  by (induction xs) auto

lemma errorOnlyLast_count: "errorOnlyLast xs \<Longrightarrow> length (filter isOnError xs) \<le> 1"
  by (induction xs) (auto split: if_splits)

lemma call_events:
  assumes "onFramedIngress h this buf = Some (n, this1, evs)"
  shows "errorOnlyLast evs"
    and "connError this1 = None \<Longrightarrow> \<forall>e\<in>set evs. \<not> isOnError e"
proof -
  have "errorOnlyLast evs \<and> (connError this1 = None \<longrightarrow> (\<forall>e\<in>set evs. \<not> isOnError e))"
  proof (cases "connError this")
    case (Some e)
    with assms show ?thesis by (simp add: onFramedIngress_def)
  next
    case None
    with assms obtain t pt ev where
      loop: "onFramedIngress_loop h this buf (of_nat (length buf)) 0 [] = Some (t, pt, ev)"
      and chk: "checkConnectionError t (connError t) ev = (connError t \<noteq> None, this1, evs)"
      by (auto simp: onFramedIngress_def checkConnectionError_def Let_def
               split: option.splits prod.splits)
    from loop_events[OF loop] have ne: "\<forall>e\<in>set ev. \<not> isOnError e" by auto
    show ?thesis
    proof (cases "connError t")
      case None
      with chk ne show ?thesis
        by (auto simp: checkConnectionError_def errorOnlyLast_no_error)
    next
      case (Some e)
      with chk ne show ?thesis
        by (auto simp: checkConnectionError_def Let_def errorOnlyLast_no_error
                 intro!: errorOnlyLast_append split: if_splits)
    qed
  qed
  then show "errorOnlyLast evs"
    and "connError this1 = None \<Longrightarrow> \<forall>e\<in>set evs. \<not> isOnError e" by auto
qed

lemma calls_errorOnlyLast:
  "onFramedIngress_calls h this bufs = Some (this1, rs) \<Longrightarrow> errorOnlyLast (concat (map snd rs))"
proof (induction bufs arbitrary: this rs)
  case Nil
  then show ?case by auto
next
  case (Cons buf bufs)
  from Cons.prems obtain n t evs rs' where
    c1: "onFramedIngress h this buf = Some (n, t, evs)"
    and c2: "onFramedIngress_calls h t bufs = Some (this1, rs')"
    and rs: "rs = (n, evs) # rs'"
    by (auto split: option.splits prod.splits)
  show ?case
  proof (cases "connError t")
    case None
    from call_events(2)[OF c1 None] Cons.IH[OF c2] rs show ?thesis
      by (simp add: errorOnlyLast_append)
  next
    case (Some e)
    then have "rs' = replicate (length bufs) (0, [])"
      using c2 calls_after_error[of t h bufs] by simp
    then have "concat (map snd rs') = []" by simp
    with call_events(1)[OF c1] rs show ?thesis by (simp del: concat_eq_Nil_conv)
  qed
qed

lemma parseData_zero:
  "length' header = 0 \<Longrightarrow>
     parseData cursor header outBuf = Some (Some HTTP_MALFORMED_FRAME_DATA, cursor, outBuf)"
  by (simp add: parseData_def)

lemma parseData_nonzero:
  assumes "length' header \<noteq> 0" and "unat (length' header) \<le> length cursor"
  shows "parseData cursor header outBuf
           = Some (None, drop (unat (length' header)) cursor,
                   Some (take (unat (length' header)) cursor))"
    and "length (take (unat (length' header)) cursor) = unat (length' header)"
  using assms by (simp_all add: parseData_def clone_def)

lemma of_nat_pos_word:
  assumes "0 < n" "n < 2 ^ 64" shows "0 < (of_nat n :: u64)"
proof -
  have "unat (of_nat n :: u64) = n" using assms(2) by (intro of_nat_inverse[OF refl]) simp
  then show ?thesis using assms(1) by (simp add: word_less_nat_alt)
qed

lemma loop_streaming_zero_pending:
  assumes st: "frameState this = FRAME_PAYLOAD_STREAMING"
    and pend: "pendingDataFrameBytes this = 0"
    and ce: "connError this = None" and np: "\<not> parserPaused this"
    and pos: "0 < bufLen"
  shows "onFramedIngress_loop h this cursor bufLen parsedTot events
           = Some (this\<lparr>connError := Some HTTP_MALFORMED_FRAME_DATA,
                        pendingDataFrameBytes := 0,
                        frameState := FRAME_HEADER_TYPE,
                        totalBytesParsed := totalBytesParsed this\<rparr>,
                   parsedTot, events)"
proof -
  let ?t = "this\<lparr>connError := Some HTTP_MALFORMED_FRAME_DATA,
                  pendingDataFrameBytes := 0,
                  frameState := FRAME_HEADER_TYPE\<rparr>"
  have body: "onFramedIngress_body h this cursor bufLen events = Continue (?t, cursor, 0, events)"
    using st pend pos
    by (simp add: onFramedIngress_body_def Let_def parseData_def surfaced_def)
  have "onFramedIngress_loop h this cursor bufLen parsedTot events
          = onFramedIngress_loop h (?t\<lparr>totalBytesParsed := totalBytesParsed ?t + 0\<rparr>) cursor
              (bufLen - 0) (parsedTot + 0) events"
    using ce np pos body by (subst onFramedIngress_loop.simps) simp
  also have "\<dots> = Some (?t\<lparr>totalBytesParsed := totalBytesParsed ?t + 0\<rparr>, parsedTot + 0, events)"
    by (subst onFramedIngress_loop.simps) simp
  finally show ?thesis by simp
qed

lemma streaming_zero_pending:
  assumes st: "frameState this = FRAME_PAYLOAD_STREAMING"
    and pend: "pendingDataFrameBytes this = 0"
    and ce: "connError this = None" and np: "\<not> parserPaused this"
    and buf: "buf \<noteq> []" "length buf < 2 ^ 64"
  shows "onFramedIngress h this buf
           = Some (0,
                   this\<lparr>connError := Some HTTP_MALFORMED_FRAME_DATA,
                        pendingDataFrameBytes := 0,
                        frameState := FRAME_HEADER_TYPE,
                        totalBytesParsed := totalBytesParsed this,
                        parserPaused := True\<rparr>,
                   if callback this then [OnError HTTP_MALFORMED_FRAME_DATA] else [])"
proof -
  have pos: "0 < (of_nat (length buf) :: u64)" using buf by (intro of_nat_pos_word) auto
  show ?thesis
    using ce loop_streaming_zero_pending[OF st pend ce np pos, of h buf 0 "[]"]
    by (simp add: onFramedIngress_def checkConnectionError_def Let_def)
qed

lemma decode_zero_byte: "decodeQuicInteger (0x00 # cursor) 8 = Some ((0, 1), cursor)"
  by (simp add: decodeQuicInteger_def readBE_def)

lemma body_header_length_nonDATA:
  assumes "frameState this = FRAME_HEADER_LENGTH" and "type' (curHeader this) \<noteq> DATA"
    and "onFramedIngress_body h this cursor bufLen events
           = Continue (this1, cursor1, parsed, events1)"
  shows "frameState this1 = FRAME_PAYLOAD"
  using assms
  by (auto simp: onFramedIngress_body_def Let_def split: option.splits prod.splits if_splits)

text \<open>Single steps of the loop, and a DATA header of length 0 read in any encoding.\<close>

lemma loop_step:
  assumes "connError this = None" and "0 < bufLen" and "\<not> parserPaused this"
    and "onFramedIngress_body h this cursor bufLen events
           = Continue (thisA, cursorA, parsed, eventsA)"
    and "parsed \<le> bufLen"
  shows "onFramedIngress_loop h this cursor bufLen parsedTot events
           = onFramedIngress_loop h (thisA\<lparr>totalBytesParsed := totalBytesParsed thisA + parsed\<rparr>)
               cursorA (bufLen - parsed) (parsedTot + parsed) eventsA"
  using assms by (subst onFramedIngress_loop.simps) simp

lemma loop_done:
  "onFramedIngress_loop h this cursor 0 parsedTot events = Some (this, parsedTot, events)"
  by (subst onFramedIngress_loop.simps) simp

lemma body_header_type:
  assumes "frameState this = FRAME_HEADER_TYPE"
    and "decodeQuicInteger cursor 8 = Some ((ty, k), cursorA)"
    and "checkFrameAllowed h ty = None"
  shows "onFramedIngress_body h this cursor bufLen events
           = Continue (this\<lparr>curHeader := (curHeader this)\<lparr>type' := ty\<rparr>,
                            frameState := FRAME_HEADER_LENGTH\<rparr>, cursorA, k, events)"
  using assms by (simp add: onFramedIngress_body_def Let_def)

lemma body_header_length_DATA:
  assumes "frameState this = FRAME_HEADER_LENGTH" and "type' (curHeader this) = DATA"
    and "decodeQuicInteger cursor 8 = Some ((len, k), cursorA)"
    and "\<not> (transportSupportsPartialReliability h \<and> len = kUnframedDataFrameLen)"
  shows "onFramedIngress_body h this cursor bufLen events
           = Continue (this\<lparr>curHeader := \<lparr>type' = DATA, length' = len\<rparr>,
                            pendingDataFrameBytes := len,
                            frameState := FRAME_PAYLOAD_STREAMING\<rparr>, cursorA, k,
                       if callback this
                       then events @ [OnFrameHeader (streamId this) 0 len DATA] else events)"
proof -
  have hdr: "curHeader this\<lparr>length' := len\<rparr> = \<lparr>type' = DATA, length' = len\<rparr>"
    using assms(2) by (cases "curHeader this") simp
  show ?thesis using assms by (auto simp: onFramedIngress_body_def Let_def hdr)
qed

lemma body_header_length_other:
  assumes "frameState this = FRAME_HEADER_LENGTH" and "type' (curHeader this) \<noteq> DATA"
    and "decodeQuicInteger cursor 8 = Some ((len, k), cursorA)"
  shows "onFramedIngress_body h this cursor bufLen events
           = Continue (this\<lparr>curHeader := (curHeader this)\<lparr>length' := len\<rparr>,
                            pendingDataFrameBytes := len,
                            frameState := FRAME_PAYLOAD\<rparr>, cursorA, k,
                       if callback this
                       then events @ [OnFrameHeader (streamId this) 0 len (type' (curHeader this))]
                       else events)"
  using assms by (auto simp: onFramedIngress_body_def Let_def)

lemma word_less_sub_pos: "(k::u64) < b \<Longrightarrow> 0 < b - k"
  by (simp add: word_less_nat_alt unat_sub word_le_nat_alt)

lemma loop_zero_length_DATA_from_length:
  assumes st: "frameState this = FRAME_HEADER_LENGTH" and ty: "type' (curHeader this) = DATA"
    and ce: "connError this = None" and np: "\<not> parserPaused this"
    and pr: "\<not> transportSupportsPartialReliability h"
    and dec: "decodeQuicInteger cursor 8 = Some ((0, k), cursorA)"
    and more: "k < bufLen"
  shows "onFramedIngress_loop h this cursor bufLen parsedTot events
           = Some (this\<lparr>curHeader := \<lparr>type' = DATA, length' = 0\<rparr>,
                        pendingDataFrameBytes := 0,
                        frameState := FRAME_HEADER_TYPE,
                        connError := Some HTTP_MALFORMED_FRAME_DATA,
                        totalBytesParsed := totalBytesParsed this + k\<rparr>,
                   parsedTot + k,
                   if callback this
                   then events @ [OnFrameHeader (streamId this) 0 0 DATA] else events)"
proof -
  let ?t = "this\<lparr>curHeader := \<lparr>type' = DATA, length' = 0\<rparr>, pendingDataFrameBytes := 0,
                  frameState := FRAME_PAYLOAD_STREAMING\<rparr>"
  let ?evs = "if callback this
              then events @ [OnFrameHeader (streamId this) 0 0 DATA] else events"
  have pos: "0 < bufLen" using more by (simp add: word_greater_zero_iff) (use more in auto)
  have le: "k \<le> bufLen" using more by simp
  have body: "onFramedIngress_body h this cursor bufLen events = Continue (?t, cursorA, k, ?evs)"
    using body_header_length_DATA[OF st ty dec, of h bufLen events] pr by simp
  have "onFramedIngress_loop h this cursor bufLen parsedTot events
          = onFramedIngress_loop h (?t\<lparr>totalBytesParsed := totalBytesParsed ?t + k\<rparr>)
              cursorA (bufLen - k) (parsedTot + k) ?evs"
    by (rule loop_step[OF ce pos np body le])
  also have "\<dots> = Some (?t\<lparr>totalBytesParsed := totalBytesParsed ?t + k,
                             connError := Some HTTP_MALFORMED_FRAME_DATA,
                             pendingDataFrameBytes := 0, frameState := FRAME_HEADER_TYPE,
                             totalBytesParsed := totalBytesParsed this + k\<rparr>,
                          parsedTot + k, ?evs)"
    using ce np word_less_sub_pos[OF more] by (subst loop_streaming_zero_pending) simp_all
  finally show ?thesis by simp
qed

lemma loop_zero_length_DATA_from_type:
  assumes st: "frameState this = FRAME_HEADER_TYPE"
    and ce: "connError this = None" and np: "\<not> parserPaused this"
    and pr: "\<not> transportSupportsPartialReliability h"
    and dec0: "decodeQuicInteger cursor 8 = Some ((DATA, k0), cursorA)"
    and allowed: "checkFrameAllowed h DATA = None"
    and dec1: "decodeQuicInteger cursorA 8 = Some ((0, k1), cursorB)"
    and more: "unat k0 + unat k1 < unat bufLen"
  shows "onFramedIngress_loop h this cursor bufLen parsedTot events
           = Some (this\<lparr>curHeader := \<lparr>type' = DATA, length' = 0\<rparr>,
                        pendingDataFrameBytes := 0,
                        frameState := FRAME_HEADER_TYPE,
                        connError := Some HTTP_MALFORMED_FRAME_DATA,
                        totalBytesParsed := totalBytesParsed this + k0 + k1\<rparr>,
                   parsedTot + k0 + k1,
                   if callback this
                   then events @ [OnFrameHeader (streamId this) 0 0 DATA] else events)"
proof -
  let ?t = "this\<lparr>curHeader := (curHeader this)\<lparr>type' := DATA\<rparr>,
                  frameState := FRAME_HEADER_LENGTH\<rparr>"
  let ?u = "?t\<lparr>totalBytesParsed := totalBytesParsed ?t + k0\<rparr>"
  have pos: "0 < bufLen" using more by (simp add: word_less_nat_alt)
  have le: "k0 \<le> bufLen" using more by (simp add: word_le_nat_alt)
  have sub: "unat (bufLen - k0) = unat bufLen - unat k0" using le by (simp add: unat_sub)
  have lt: "k1 < bufLen - k0" using more sub by (simp add: word_less_nat_alt)
  have body: "onFramedIngress_body h this cursor bufLen events = Continue (?t, cursorA, k0, events)"
    by (rule body_header_type[OF st dec0 allowed])
  have "onFramedIngress_loop h this cursor bufLen parsedTot events
          = onFramedIngress_loop h ?u cursorA (bufLen - k0) (parsedTot + k0) events"
    by (rule loop_step[OF ce pos np body le])
  also have "\<dots> = Some (?u\<lparr>curHeader := \<lparr>type' = DATA, length' = 0\<rparr>,
                        pendingDataFrameBytes := 0,
                        frameState := FRAME_HEADER_TYPE,
                        connError := Some HTTP_MALFORMED_FRAME_DATA,
                        totalBytesParsed := totalBytesParsed ?u + k1\<rparr>,
                   parsedTot + k0 + k1,
                   if callback ?u
                   then events @ [OnFrameHeader (streamId ?u) 0 0 DATA] else events)"
    using ce np pr dec1 lt by (subst loop_zero_length_DATA_from_length) simp_all
  finally show ?thesis by simp
qed

lemma call_zero_length_DATA_from_length:
  assumes st: "frameState this = FRAME_HEADER_LENGTH" and ty: "type' (curHeader this) = DATA"
    and ce: "connError this = None" and np: "\<not> parserPaused this"
    and pr: "\<not> transportSupportsPartialReliability h"
    and dec: "decodeQuicInteger buf 8 = Some ((0, k), cursorA)"
    and follows: "cursorA \<noteq> []" and len: "length buf < 2 ^ 64"
  shows "onFramedIngress h this buf
           = Some (k,
                   this\<lparr>curHeader := \<lparr>type' = DATA, length' = 0\<rparr>,
                        pendingDataFrameBytes := 0,
                        frameState := FRAME_HEADER_TYPE,
                        connError := Some HTTP_MALFORMED_FRAME_DATA,
                        totalBytesParsed := totalBytesParsed this + k,
                        parserPaused := True\<rparr>,
                   if callback this
                   then [OnFrameHeader (streamId this) 0 0 DATA, OnError HTTP_MALFORMED_FRAME_DATA]
                   else [])"
proof -
  note d = decodeQuicInteger_SomeD[OF dec]
  have un: "unat (of_nat (length buf) :: u64) = length buf"
    using len by (intro of_nat_inverse[OF refl]) simp
  have "unat k < length buf" using d(3,4) follows by (cases "unat k = length buf") auto
  then have more: "k < of_nat (length buf)" using un by (simp add: word_less_nat_alt)
  show ?thesis
    using ce loop_zero_length_DATA_from_length[OF st ty ce np pr dec more, of 0 "[]"]
    by (simp add: onFramedIngress_def checkConnectionError_def Let_def)
qed

lemma call_zero_length_DATA_from_type:
  assumes st: "frameState this = FRAME_HEADER_TYPE"
    and ce: "connError this = None" and np: "\<not> parserPaused this"
    and pr: "\<not> transportSupportsPartialReliability h"
    and dec0: "decodeQuicInteger buf 8 = Some ((DATA, k0), cursorA)"
    and allowed: "checkFrameAllowed h DATA = None"
    and dec1: "decodeQuicInteger cursorA 8 = Some ((0, k1), cursorB)"
    and follows: "cursorB \<noteq> []" and len: "length buf < 2 ^ 64"
  shows "onFramedIngress h this buf
           = Some (k0 + k1,
                   this\<lparr>curHeader := \<lparr>type' = DATA, length' = 0\<rparr>,
                        pendingDataFrameBytes := 0,
                        frameState := FRAME_HEADER_TYPE,
                        connError := Some HTTP_MALFORMED_FRAME_DATA,
                        totalBytesParsed := totalBytesParsed this + k0 + k1,
                        parserPaused := True\<rparr>,
                   if callback this
                   then [OnFrameHeader (streamId this) 0 0 DATA, OnError HTTP_MALFORMED_FRAME_DATA]
                   else [])"
proof -
  note d0 = decodeQuicInteger_SomeD[OF dec0] and d1 = decodeQuicInteger_SomeD[OF dec1]
  have un: "unat (of_nat (length buf) :: u64) = length buf"
    using len by (intro of_nat_inverse[OF refl]) simp
  have "unat k1 < length cursorA" using d1(3,4) follows by (cases "unat k1 = length cursorA") auto
  then have more: "unat k0 + unat k1 < unat (of_nat (length buf) :: u64)"
    using d0(3,4) un by simp
  show ?thesis
    using ce loop_zero_length_DATA_from_type[OF st ce np pr dec0 allowed dec1 more, of 0 "[]"]
    by (simp add: onFramedIngress_def checkConnectionError_def Let_def)
qed

lemma body_zero_length_DATA_partially_reliable:
  assumes st: "frameState this = FRAME_HEADER_LENGTH" and ty: "type' (curHeader this) = DATA"
    and pr: "transportSupportsPartialReliability h"
    and dec: "decodeQuicInteger cursor 8 = Some ((0, k), cursorA)"
  shows "onFramedIngress_body h this cursor bufLen events
           = Continue (this\<lparr>curHeader := \<lparr>type' = DATA, length' = 0\<rparr>,
                            pendingDataFrameBytes := 0,
                            frameState := FRAME_PAYLOAD_PARTIALLY_RELIABLE_STREAMING\<rparr>,
                       cursorA, k,
                       (if callback this
                        then events @ [OnFrameHeader (streamId this) 0 0 DATA] else events)
                       @ [OnIngressPartiallyReliableBodyStarted (totalBytesParsed this + k)])"
proof -
  have hdr: "curHeader this\<lparr>length' := 0\<rparr> = \<lparr>type' = DATA, length' = 0\<rparr>"
    using ty by (cases "curHeader this") simp
  show ?thesis
    using st ty pr dec
    by (simp add: onFramedIngress_body_def Let_def hdr kUnframedDataFrameLen_def)
qed
section \<open>Decoding within a declared length\<close>

lemma unat_of_nat_len: "n < 2 ^ 64 \<Longrightarrow> unat (of_nat n :: u64) = n"
  by (rule of_nat_inverse[OF refl]) simp

lemma decode_within:
  assumes "length p < 2 ^ 64"
  shows "decodeQuicInteger (p @ rest) (of_nat (length p))
           = map_option (\<lambda>(r, p'). (r, p' @ rest)) (decodeQuicInteger p 8)"
proof (cases p)
  case Nil
  then show ?thesis by (cases rest) (simp_all add: decodeQuicInteger_def Let_def)
next
  case (Cons b bs)
  let ?k = "(2::nat) ^ unat (drop_bit 6 b)"
  have k: "?k \<in> {1, 2, 4, 8}" by (rule pow_class[OF drop_bit6_byte])
  then have k8: "\<not> unat (8::u64) < ?k" by auto
  have un: "unat (of_nat (length p) :: u64) = length p" using assms by (rule unat_of_nat_len)
  show ?thesis
  proof (cases "length p < ?k")
    case True
    then show ?thesis using Cons un by (simp add: decodeQuicInteger_def Let_def)
  next
    case False
    then have "take ?k (p @ rest) = take ?k p" "drop ?k (p @ rest) = drop ?k p @ rest" by simp_all
    then show ?thesis using Cons un False k8
      by (simp add: decodeQuicInteger_def Let_def)
  qed
qed

lemma decode_within_rest:
  assumes "decodeQuicInteger p 8 = Some ((v, k), p')" and "length p < 2 ^ 64"
  shows "(of_nat (length p) :: u64) - k = of_nat (length p')" and "length p' < length p"
proof -
  from decodeQuicInteger_SomeD[OF assms(1)]
  have k: "unat k \<le> length p" "p' = drop (unat k) p" "unat k \<in> {1, 2, 4, 8}" by auto
  then have l: "length p' = length p - unat k" by simp
  have "(of_nat (length p) :: u64) = of_nat (length p - unat k) + k"
  proof -
    have "(of_nat (length p - unat k) + k :: u64) = of_nat (length p - unat k) + of_nat (unat k)"
      by (simp add: of_nat_unat)
    also have "\<dots> = of_nat ((length p - unat k) + unat k)" by (simp only: of_nat_add)
    also have "\<dots> = of_nat (length p)" using k(1) by simp
    finally show ?thesis by simp
  qed
  then show "(of_nat (length p) :: u64) - k = of_nat (length p')" using l by simp
  show "length p' < length p" using k l by auto
qed

lemma wrap_residual:
  assumes "unat (k1::u64) \<le> 8" "unat k2 \<le> 8"
  shows "(0::u64) - 1 - k1 - k2 - 1 \<noteq> 0"
proof
  assume "(0::u64) - 1 - k1 - k2 - 1 = 0"
  moreover have "(0::u64) - 1 - k1 - k2 - 1 = - (k1 + k2 + 2)" by simp
  ultimately have "k1 + k2 + 2 = 0" by (simp only: neg_equal_0_iff_equal)
  then have "unat (k1 + k2 + 2) = 0" by simp
  moreover have "unat (k1 + k2 + 2) = (unat k1 + unat k2 + 2) mod 2 ^ 64"
    by (simp add: unat_word_ariths mod_simps)
  moreover have "(unat k1 + unat k2 + 2) mod 2 ^ 64 = unat k1 + unat k2 + 2"
    using assms by simp
  ultimately show False by simp
qed

lemma of_nat_len_eq_0: "n < 2 ^ 64 \<Longrightarrow> (of_nat n :: u64) = 0 \<longleftrightarrow> n = 0"
  using unat_of_nat_len[of n] by (auto simp: unat_eq_zero[symmetric] simp del: unat_eq_zero)

lemma decodeQuicInteger_le8:
  "decodeQuicInteger c a = Some (r, c1) \<Longrightarrow> unat (snd r) \<le> 8"
  using decodeQuicInteger_SomeD(1)[of c a "fst r" "snd r" c1] by auto

text \<open>The last step of \<open>parsePriority\<close> (the weight and the residual check), and the step
  before it (the optional dependency id), named so that they can be reasoned about one
  at a time.\<close>

definition parsePriority_weight ::
  "bytes \<Rightarrow> u64 \<Rightarrow> PriorityUpdate \<Rightarrow> ParseResult \<times> bytes \<times> PriorityUpdate" where
  "parsePriority_weight cursor3 frameLength outPriority =
     (case cursor3 of
        [] \<Rightarrow> (Some HTTP_MALFORMED_FRAME_PRIORITY, cursor3, outPriority)
      | w # cursor4 \<Rightarrow>
          let outPriority = outPriority\<lparr>weight := w\<rparr>;
              frameLength = frameLength - 1 in
          if frameLength \<noteq> 0
            then (Some HTTP_MALFORMED_FRAME_PRIORITY, cursor4, outPriority)
          else (None, cursor4, outPriority))"

definition parsePriority_dependency ::
  "bytes \<Rightarrow> u64 \<Rightarrow> PriorityUpdate \<Rightarrow> ParseResult \<times> bytes \<times> PriorityUpdate" where
  "parsePriority_dependency cursor2 frameLength outPriority =
     (case (if dependencyType outPriority \<noteq> TREE_ROOT
            then (case decodeQuicInteger cursor2 frameLength of
                    None \<Rightarrow> None
                  | Some (elementDependencyIdRes, cursor3) \<Rightarrow>
                      Some (cursor3,
                            outPriority\<lparr>elementDependencyId := fst elementDependencyIdRes\<rparr>,
                            frameLength - snd elementDependencyIdRes))
            else Some (cursor2, outPriority, frameLength)) of
        None \<Rightarrow> (Some HTTP_MALFORMED_FRAME_PRIORITY, cursor2, outPriority)
      | Some (cursor3, outPriority, frameLength) \<Rightarrow>
          parsePriority_weight cursor3 frameLength outPriority)"

lemma parsePriority_unfold:
  "parsePriority cursor header outPriority =
     (case cursor of
        [] \<Rightarrow> (Some HTTP_MALFORMED_FRAME_PRIORITY, cursor, outPriority)
      | flags # cursor1 \<Rightarrow>
          let frameLength = length' header - 1;
              (res, outPriority) = decodePriorityFlags flags outPriority in
          if \<not> res then (Some HTTP_MALFORMED_FRAME_PRIORITY, cursor1, outPriority)
          else if prioritizedType outPriority = TREE_ROOT
            then (Some HTTP_MALFORMED_FRAME_PRIORITY, cursor1, outPriority)
          else
            case decodeQuicInteger cursor1 frameLength of
              None \<Rightarrow> (Some HTTP_MALFORMED_FRAME_PRIORITY, cursor1, outPriority)
            | Some (prioritizedElementIdRes, cursor2) \<Rightarrow>
                parsePriority_dependency cursor2 (frameLength - snd prioritizedElementIdRes)
                  (outPriority\<lparr>prioritizedElementId := fst prioritizedElementIdRes\<rparr>))"
  unfolding parsePriority_def parsePriority_dependency_def parsePriority_weight_def Let_def
  by (rule refl)

lemma parsePriority_weight_None:
  "fst (parsePriority_weight c fl u) = None \<longleftrightarrow> (c \<noteq> [] \<and> fl = 1)"
  by (cases c) (auto simp: parsePriority_weight_def Let_def)

lemma parsePriority_weight_fst:
  "fst (parsePriority_weight c fl u) = None
   \<or> fst (parsePriority_weight c fl u) = Some HTTP_MALFORMED_FRAME_PRIORITY"
  by (cases c) (auto simp: parsePriority_weight_def Let_def)

lemma parsePriority_dependency_fst:
  "fst (parsePriority_dependency c fl u) = None
   \<or> fst (parsePriority_dependency c fl u) = Some HTTP_MALFORMED_FRAME_PRIORITY"
  using parsePriority_weight_fst
  by (auto simp: parsePriority_dependency_def split: option.splits prod.splits)

lemma parsePriority_dependency_NoneD:
  assumes "fst (parsePriority_dependency c fl u) = None"
  shows "\<exists>k. unat k \<le> 8 \<and> fl - k = 1"
proof (cases "dependencyType u \<noteq> TREE_ROOT")
  case False
  with assms have "fl = 1"
    by (simp add: parsePriority_dependency_def parsePriority_weight_None)
  then show ?thesis by (intro exI[of _ 0]) simp
next
  case True
  with assms obtain r c3 where d: "decodeQuicInteger c fl = Some (r, c3)"
    and "fst (parsePriority_weight c3 (fl - snd r) (u\<lparr>elementDependencyId := fst r\<rparr>)) = None"
    by (auto simp: parsePriority_dependency_def split: option.splits)
  then have "fl - snd r = 1" by (simp add: parsePriority_weight_None)
  with decodeQuicInteger_le8[OF d] show ?thesis by blast
qed

lemma parsePriority_fst:
  "fst (parsePriority c header u) = None
   \<or> fst (parsePriority c header u) = Some HTTP_MALFORMED_FRAME_PRIORITY"
  using parsePriority_dependency_fst
  by (auto simp: parsePriority_unfold Let_def split: list.splits option.splits prod.splits)

lemma parsePriority_empty_payload:
  assumes "length' header = 0"
  shows "fst (parsePriority cursor header out0) = Some HTTP_MALFORMED_FRAME_PRIORITY"
proof (rule ccontr)
  assume "\<not> ?thesis"
  then have ok: "fst (parsePriority cursor header out0) = None"
    using parsePriority_fst[of cursor header out0] by auto
  then obtain flags c1 where c: "cursor = flags # c1"
    by (cases cursor) (auto simp: parsePriority_unfold)
  from ok c assms obtain r c2 u where d: "decodeQuicInteger c1 (0 - 1) = Some (r, c2)"
    and "fst (parsePriority_dependency c2 (0 - 1 - snd r) u) = None"
    by (auto simp: parsePriority_unfold Let_def split: option.splits prod.splits if_splits)
  from parsePriority_dependency_NoneD[OF this(2)]
  obtain k where k: "unat k \<le> 8" "(0::u64) - 1 - snd r - k = 1" by blast
  from wrap_residual[OF decodeQuicInteger_le8[OF d] k(1)] k(2) show False by simp
qed

lemma parsePriority_weight_split:
  assumes "length p3 < 2 ^ 64"
  shows "p3 = [w] \<Longrightarrow> parsePriority_weight (p3 @ rest) (of_nat (length p3)) u
           = (None, rest, u\<lparr>weight := w\<rparr>)"
    and "\<forall>w. p3 \<noteq> [w] \<Longrightarrow> fst (parsePriority_weight (p3 @ rest) (of_nat (length p3)) u)
           = Some HTTP_MALFORMED_FRAME_PRIORITY"
proof -
  show "parsePriority_weight (p3 @ rest) (of_nat (length p3)) u
           = (None, rest, u\<lparr>weight := w\<rparr>)" if "p3 = [w]"
    using that by (simp add: parsePriority_weight_def)
  show "fst (parsePriority_weight (p3 @ rest) (of_nat (length p3)) u)
           = Some HTTP_MALFORMED_FRAME_PRIORITY" if "\<forall>w. p3 \<noteq> [w]"
  proof -
    have "length p3 \<noteq> 1" using that by (cases p3) auto
    then have "(of_nat (length p3) :: u64) \<noteq> 1"
      using unat_of_nat_len[OF assms] by (metis unat_1)
    then have "fst (parsePriority_weight (p3 @ rest) (of_nat (length p3)) u) \<noteq> None"
      by (simp add: parsePriority_weight_None)
    then show ?thesis using parsePriority_weight_fst[of "p3 @ rest" "of_nat (length p3)" u]
      by auto
  qed
qed

lemma parsePriority_dependency_split:
  assumes "length p2 < 2 ^ 64"
  shows "parsePriority_dependency (p2 @ rest) (of_nat (length p2)) u =
     (case (if dependencyType u \<noteq> TREE_ROOT
            then (case decodeQuicInteger p2 8 of
                    None \<Rightarrow> None
                  | Some (de, p3) \<Rightarrow> Some (u\<lparr>elementDependencyId := fst de\<rparr>, p3))
            else Some (u, p2)) of
        None \<Rightarrow> (Some HTTP_MALFORMED_FRAME_PRIORITY, p2 @ rest, u)
      | Some (u1, p3) \<Rightarrow> parsePriority_weight (p3 @ rest) (of_nat (length p3)) u1)"
proof (cases "dependencyType u \<noteq> TREE_ROOT")
  case False
  then show ?thesis by (simp add: parsePriority_dependency_def)
next
  case True
  show ?thesis
  proof (cases "decodeQuicInteger p2 8")
    case None
    then show ?thesis using True
      by (simp add: parsePriority_dependency_def decode_within[OF assms])
  next
    case (Some x)
    obtain v k p3 where x: "x = ((v, k), p3)" by (cases x) auto
    from decode_within_rest(1)[OF Some[unfolded x] assms] Some x True
    show ?thesis
      by (simp add: parsePriority_dependency_def decode_within[OF assms])
  qed
qed

lemma decodePriorityFlags_fst:
  "fst (decodePriorityFlags flags out0) \<longleftrightarrow> flags AND push_bit PRIORITY_EMPTY_POS 0x07 = 0"
  by (simp add: decodePriorityFlags_def Let_def)

lemma parsePriority_split:
  assumes len: "length p < 2 ^ 64" and hl: "length' header = of_nat (length p)"
  shows "priorityPayload p out0 = None
           \<Longrightarrow> fst (parsePriority (p @ rest) header out0) = Some HTTP_MALFORMED_FRAME_PRIORITY"
    and "priorityPayload p out0 = Some P
           \<Longrightarrow> parsePriority (p @ rest) header out0 = (None, rest, P)"
proof -
  have "case priorityPayload p out0 of
          None \<Rightarrow> fst (parsePriority (p @ rest) header out0) = Some HTTP_MALFORMED_FRAME_PRIORITY
        | Some P \<Rightarrow> parsePriority (p @ rest) header out0 = (None, rest, P)"
  proof (cases p)
    case Nil
    then show ?thesis using hl
      by (simp add: priorityPayload_def parsePriority_empty_payload)
  next
    case (Cons flags p1)
    obtain ok u where df: "decodePriorityFlags flags out0 = (ok, u)"
      by (cases "decodePriorityFlags flags out0") auto
    have ok: "ok \<longleftrightarrow> flags AND push_bit PRIORITY_EMPTY_POS 0x07 = 0"
      using decodePriorityFlags_fst[of flags out0] df by simp
    have l1: "length p1 < 2 ^ 64" using len Cons by simp
    have fl: "length' header - 1 = of_nat (length p1)" using hl Cons by simp
    show ?thesis
    proof (cases "\<not> ok \<or> prioritizedType u = TREE_ROOT")
      case True
      then show ?thesis using Cons df ok
        by (auto simp: priorityPayload_def parsePriority_unfold Let_def)
    next
      case False
      show ?thesis
      proof (cases "decodeQuicInteger p1 8")
        case None
        then show ?thesis using Cons df ok False fl
          by (simp add: priorityPayload_def parsePriority_unfold Let_def decode_within[OF l1])
      next
        case (Some x)
        obtain v k p2 where x: "x = ((v, k), p2)" by (cases x) auto
        have l2: "length p2 < 2 ^ 64"
          using decode_within_rest(2)[OF Some[unfolded x] l1] l1 by simp
        have r2: "(of_nat (length p1) :: u64) - k = of_nat (length p2)"
          using decode_within_rest(1)[OF Some[unfolded x] l1] .
        let ?u = "u\<lparr>prioritizedElementId := v\<rparr>"
        have code: "parsePriority (p @ rest) header out0
                      = parsePriority_dependency (p2 @ rest) (of_nat (length p2)) ?u"
          using Cons df False Some x fl r2
          by (simp add: parsePriority_unfold Let_def decode_within[OF l1])
        let ?X = "if dependencyType u \<noteq> TREE_ROOT
                  then (case decodeQuicInteger p2 8 of
                          None \<Rightarrow> None
                        | Some (de, p3) \<Rightarrow> Some (?u\<lparr>elementDependencyId := fst de\<rparr>, p3))
                  else Some (?u, p2)"
        have spec: "priorityPayload p out0
                      = (case ?X of
                           None \<Rightarrow> None
                         | Some (u1, p3) \<Rightarrow>
                             (case p3 of
                                [] \<Rightarrow> None
                              | w # residual \<Rightarrow>
                                  if residual \<noteq> [] then None else Some (u1\<lparr>weight := w\<rparr>)))"
          using Cons df False Some x ok
          by (auto simp: priorityPayload_def Let_def split: option.splits)
        show ?thesis
        proof (cases ?X)
          case None
          then show ?thesis unfolding spec code parsePriority_dependency_split[OF l2]
            by (simp split: if_splits)
        next
          case (Some y)
          obtain u1 p3 where y: "y = (u1, p3)" by (cases y) auto
          have l3: "length p3 < 2 ^ 64"
            using Some y l2 decode_within_rest(2)[of p2 _ _ p3]
            by (auto split: if_splits option.splits prod.splits)
          have code': "parsePriority (p @ rest) header out0
                         = parsePriority_weight (p3 @ rest) (of_nat (length p3)) u1"
            unfolding code parsePriority_dependency_split[OF l2] using Some y
            by (simp split: if_splits)
          have spec': "priorityPayload p out0
                         = (case p3 of
                              [] \<Rightarrow> None
                            | w # residual \<Rightarrow>
                                if residual \<noteq> [] then None else Some (u1\<lparr>weight := w\<rparr>))"
            unfolding spec using Some y by (simp split: if_splits)
          show ?thesis
          proof (cases "\<exists>w. p3 = [w]")
            case True
            then obtain w where w: "p3 = [w]" by blast
            with parsePriority_weight_split(1)[OF l3 w] show ?thesis
              unfolding code' spec' by simp
          next
            case False
            then have "\<forall>w. p3 \<noteq> [w]" by simp
            from parsePriority_weight_split(2)[OF l3 this] False show ?thesis
              unfolding code' spec' by (cases p3) (auto split: list.splits)
          qed
        qed
      qed
    qed
  qed
  then show "priorityPayload p out0 = None
           \<Longrightarrow> fst (parsePriority (p @ rest) header out0) = Some HTTP_MALFORMED_FRAME_PRIORITY"
    and "priorityPayload p out0 = Some P
           \<Longrightarrow> parsePriority (p @ rest) header out0 = (None, rest, P)"
    by auto
qed

lemma of_nat_len_pos: "n < 2 ^ 64 \<Longrightarrow> 0 < (of_nat n :: u64) \<longleftrightarrow> n \<noteq> 0"
  using of_nat_len_eq_0[of n] by (simp add: word_greater_zero_iff)

lemma decodeSettingValue_split:
  assumes "length p1 < 2 ^ 64"
  shows "decodeSettingValue (p1 @ rest) (of_nat (length p1)) sid =
           (case decodeQuicInteger p1 8 of
              None \<Rightarrow> (Inl HTTP_MALFORMED_FRAME_SETTINGS, p1 @ rest, of_nat (length p1))
            | Some (v, p2) \<Rightarrow>
                (Inr (if isKnownSetting sid then Some (fst v) else None), p2 @ rest,
                 of_nat (length p2)))"
proof (cases "decodeQuicInteger p1 8")
  case None
  then show ?thesis by (simp add: decodeSettingValue_def decode_within[OF assms])
next
  case (Some x)
  obtain v k p2 where x: "x = ((v, k), p2)" by (cases x) auto
  from decode_within_rest(1)[OF Some[unfolded x] assms] Some x
  show ?thesis
    by (simp add: decodeSettingValue_def decode_within[OF assms] Let_def isKnownSetting_def)
qed

lemma parseSettings_loop_split:
  assumes "length p < 2 ^ 64"
  shows "case settingsPayload p of
           None \<Rightarrow> fst (parseSettings_loop (p @ rest) (of_nat (length p)) s0)
                     = Some HTTP_MALFORMED_FRAME_SETTINGS
         | Some pairs \<Rightarrow> parseSettings_loop (p @ rest) (of_nat (length p)) s0
                     = (None, rest, s0 @ filter (\<lambda>pr. isKnownSetting (fst pr)) pairs)"
  using assms
proof (induction p arbitrary: s0 rule: settingsPayload.induct)
  case (1 p)
  show ?case
  proof (cases "p = []")
    case True
    then show ?thesis
      by (simp add: parseSettings_loop.simps[of rest 0] settingsPayload.simps[of "[]"])
  next
    case False
    then have pos: "0 < (of_nat (length p) :: u64)"
      using of_nat_len_pos[OF "1.prems"] by simp
    show ?thesis
    proof (cases "decodeQuicInteger p 8")
      case None
      then show ?thesis using False pos
        by (simp add: parseSettings_loop.simps[of "p @ rest"] settingsPayload.simps[of p]
                      decode_within[OF "1.prems"])
    next
      case (Some x)
      obtain sid k p1 where x: "x = ((sid, k), p1)" by (cases x) auto
      have l1: "length p1 < 2 ^ 64"
        using decode_within_rest(2)[OF Some[unfolded x] "1.prems"] "1.prems" by simp
      have r1: "(of_nat (length p) :: u64) - k = of_nat (length p1)"
        using decode_within_rest(1)[OF Some[unfolded x] "1.prems"] .
      show ?thesis
      proof (cases "decodeQuicInteger p1 8")
        case None
        then show ?thesis using False pos Some x r1
          by (simp add: parseSettings_loop.simps[of "p @ rest"] settingsPayload.simps[of p]
                        decode_within[OF "1.prems"] decodeSettingValue_split[OF l1])
      next
        case (Some y)
        obtain v k2 p2 where y: "y = ((v, k2), p2)" by (cases y) auto
        have l2: "length p2 < 2 ^ 64"
          using decode_within_rest(2)[OF Some[unfolded y] l1] l1 by simp
        let ?s = "if isKnownSetting sid then s0 @ [(sid, v)] else s0"
        have code: "parseSettings_loop (p @ rest) (of_nat (length p)) s0
                      = parseSettings_loop (p2 @ rest) (of_nat (length p2)) ?s"
          using False pos \<open>decodeQuicInteger p 8 = Some x\<close> x r1 Some y
          by (subst parseSettings_loop.simps)
             (simp add: decode_within[OF "1.prems"] decodeSettingValue_split[OF l1] Let_def)
        have spec: "settingsPayload p
                      = (case settingsPayload p2 of
                           None \<Rightarrow> None
                         | Some pairs \<Rightarrow> Some ((sid, v) # pairs))"
          using False \<open>decodeQuicInteger p 8 = Some x\<close> x Some y
          by (subst settingsPayload.simps) (auto split: option.splits)
        from "1.IH"[OF False \<open>decodeQuicInteger p 8 = Some x\<close> x[symmetric] Some y[symmetric] l2,
                    of ?s]
        show ?thesis unfolding code spec by (auto split: option.splits)
      qed
    qed
  qed
qed

lemma payload_split:
  assumes "unat (len::u64) \<le> length cursor"
  shows "cursor = take (unat len) cursor @ drop (unat len) cursor"
    and "length (take (unat len) cursor) < 2 ^ 64"
    and "len = of_nat (length (take (unat len) cursor))"
proof -
  show "cursor = take (unat len) cursor @ drop (unat len) cursor" by simp
  have l: "length (take (unat len) cursor) = unat len" using assms by simp
  show "length (take (unat len) cursor) < 2 ^ 64"
    unfolding l using unsigned_less[of len, where 'a=nat] by simp
  show "len = of_nat (length (take (unat len) cursor))" unfolding l by simp
qed




section \<open>Parsing what the writers produce\<close>

lemma frame_types_distinct:
  "DATA \<noteq> HEADERS" "DATA \<noteq> PRIORITY" "DATA \<noteq> CANCEL_PUSH" "DATA \<noteq> SETTINGS"
  "DATA \<noteq> PUSH_PROMISE" "DATA \<noteq> GOAWAY" "DATA \<noteq> MAX_PUSH_ID"
  "HEADERS \<noteq> DATA" "HEADERS \<noteq> PRIORITY" "HEADERS \<noteq> CANCEL_PUSH" "HEADERS \<noteq> SETTINGS"
  "HEADERS \<noteq> PUSH_PROMISE" "HEADERS \<noteq> GOAWAY" "HEADERS \<noteq> MAX_PUSH_ID"
  "PRIORITY \<noteq> DATA" "PRIORITY \<noteq> HEADERS" "PRIORITY \<noteq> CANCEL_PUSH" "PRIORITY \<noteq> SETTINGS"
  "PRIORITY \<noteq> PUSH_PROMISE" "PRIORITY \<noteq> GOAWAY" "PRIORITY \<noteq> MAX_PUSH_ID"
  "CANCEL_PUSH \<noteq> DATA" "CANCEL_PUSH \<noteq> HEADERS" "CANCEL_PUSH \<noteq> PRIORITY"
  "CANCEL_PUSH \<noteq> SETTINGS" "CANCEL_PUSH \<noteq> PUSH_PROMISE" "CANCEL_PUSH \<noteq> GOAWAY"
  "CANCEL_PUSH \<noteq> MAX_PUSH_ID"
  "SETTINGS \<noteq> DATA" "SETTINGS \<noteq> HEADERS" "SETTINGS \<noteq> PRIORITY" "SETTINGS \<noteq> CANCEL_PUSH"
  "SETTINGS \<noteq> PUSH_PROMISE" "SETTINGS \<noteq> GOAWAY" "SETTINGS \<noteq> MAX_PUSH_ID"
  "PUSH_PROMISE \<noteq> DATA" "PUSH_PROMISE \<noteq> HEADERS" "PUSH_PROMISE \<noteq> PRIORITY"
  "PUSH_PROMISE \<noteq> CANCEL_PUSH" "PUSH_PROMISE \<noteq> SETTINGS" "PUSH_PROMISE \<noteq> GOAWAY"
  "PUSH_PROMISE \<noteq> MAX_PUSH_ID"
  "GOAWAY \<noteq> DATA" "GOAWAY \<noteq> HEADERS" "GOAWAY \<noteq> PRIORITY" "GOAWAY \<noteq> CANCEL_PUSH"
  "GOAWAY \<noteq> SETTINGS" "GOAWAY \<noteq> PUSH_PROMISE" "GOAWAY \<noteq> MAX_PUSH_ID"
  "MAX_PUSH_ID \<noteq> DATA" "MAX_PUSH_ID \<noteq> HEADERS" "MAX_PUSH_ID \<noteq> PRIORITY"
  "MAX_PUSH_ID \<noteq> CANCEL_PUSH" "MAX_PUSH_ID \<noteq> SETTINGS" "MAX_PUSH_ID \<noteq> PUSH_PROMISE"
  "MAX_PUSH_ID \<noteq> GOAWAY"
  by (simp_all add: DATA_def HEADERS_def PRIORITY_def CANCEL_PUSH_def SETTINGS_def
        PUSH_PROMISE_def GOAWAY_def MAX_PUSH_ID_def)

text \<open>A frame header on the wire decodes to its type and length.\<close>

lemma decode_frame_header:
  assumes "getQuicIntegerSize ty = Inr a" "getQuicIntegerSize len = Inr b"
  shows "decodeQuicInteger (varintBytes ty @ varintBytes len @ rest) 8
           = Some ((ty, a), varintBytes len @ rest)"
    and "decodeQuicInteger (varintBytes len @ rest) 8 = Some ((len, b), rest)"
  using decode_own_varint[OF assms(1)] decode_own_varint[OF assms(2)] by simp_all

lemma computeChainDataLength_unat:
  "length data < 2 ^ 64 \<Longrightarrow> unat (computeChainDataLength data) = length data"
  by (simp add: computeChainDataLength_def unat_of_nat_len)

lemma clone_exact:
  "length data < 2 ^ 64 \<Longrightarrow>
     clone (data @ rest) (computeChainDataLength data) = Some (data, rest)"
  by (simp add: clone_def computeChainDataLength_unat)

lemma roundtrip_data:
  assumes "data \<noteq> []" "length data < 2 ^ 64"
  shows "parseFrame h \<lparr>type' = DATA, length' = computeChainDataLength data\<rparr> (data @ rest)
           = Some (None, rest, [OnFrame (DataFrame data)])"
proof -
  have "computeChainDataLength data \<noteq> 0"
    using assms by (simp add: computeChainDataLength_def of_nat_len_eq_0)
  then show ?thesis using assms
    by (simp add: parseFrame_def parseData_def clone_exact surfaced_def)
qed

lemma roundtrip_headers:
  assumes "length data < 2 ^ 64"
  shows "parseFrame h \<lparr>type' = HEADERS, length' = computeChainDataLength data\<rparr> (data @ rest)
           = Some (None, rest, [OnFrame (HeadersFrame data)])"
  using assms
  by (simp add: parseFrame_def parseHeaders_def clone_exact surfaced_def frame_types_distinct)

lemma varint_length_word:
  assumes "getQuicIntegerSize v = Inr n"
  shows "computeChainDataLength (varintBytes v) = n"
  using encodeQuicInteger_Inr(2)[OF assms]
  by (simp add: computeChainDataLength_def)

lemma bit_kPushIdMask: "bit kPushIdMask n \<longleftrightarrow> n = 63"
proof -
  have "kPushIdMask = 2 ^ 63" by (simp add: kPushIdMask_def)
  then have "bit kPushIdMask n \<longleftrightarrow> bit (2 ^ 63 :: u64) n" by simp
  also have "\<dots> \<longleftrightarrow> n = 63" by (simp only: bit_exp_iff) (auto simp: possible_bit_word)
  finally show ?thesis .
qed

lemma internal_push_id:
  assumes "isInternalPushId i" shows "(i AND NOT kPushIdMask) OR kPushIdMask = i"
proof -
  have "bit i 63"
  proof (rule ccontr)
    assume "\<not> bit i 63"
    then have "i AND kPushIdMask = 0"
      by (intro bit_word_eqI) (auto simp: bit_and_iff bit_kPushIdMask)
    with assms show False by (simp add: isInternalPushId_def)
  qed
  then show ?thesis
    by (intro bit_word_eqI) (auto simp: bit_and_iff bit_or_iff bit_not_iff bit_kPushIdMask)
qed

lemma decode_exact:
  assumes "getQuicIntegerSize v = Inr n"
  shows "decodeQuicInteger (varintBytes v @ rest) n = Some ((v, n), rest)"
  using decode_varintBytes[OF assms order_refl] .

lemma roundtrip_cancel_push:
  assumes "isInternalPushId i" and "getQuicIntegerSize (i AND NOT kPushIdMask) = Inr sz"
  shows "parseFrame h \<lparr>type' = CANCEL_PUSH, length' = sz\<rparr>
           (varintBytes (i AND NOT kPushIdMask) @ rest)
           = Some (None, rest, [OnFrame (CancelPushFrame i)])"
  using assms
  by (simp add: parseFrame_def parseCancelPush_def decode_exact surfaced_def
        frame_types_distinct internal_push_id)

lemma roundtrip_max_push_id:
  assumes "isInternalPushId i" and "getQuicIntegerSize (i AND NOT kPushIdMask) = Inr sz"
  shows "parseFrame h \<lparr>type' = MAX_PUSH_ID, length' = sz\<rparr>
           (varintBytes (i AND NOT kPushIdMask) @ rest)
           = Some (None, rest, [OnFrame (MaxPushIdFrame i)])"
  using assms
  by (simp add: parseFrame_def parseMaxPushId_def decode_exact surfaced_def
        frame_types_distinct internal_push_id)

lemma roundtrip_goaway:
  assumes "getQuicIntegerSize i = Inr sz"
  shows "parseFrame h \<lparr>type' = GOAWAY, length' = sz\<rparr> (varintBytes i @ rest)
           = Some (None, rest, [OnFrame (GoawayFrame i)])"
  using assms
  by (simp add: parseFrame_def parseGoaway_def decode_exact surfaced_def frame_types_distinct)

lemma getQuicIntegerSize_unat_le8: "getQuicIntegerSize v = Inr n \<Longrightarrow> unat n \<le> 8"
  using getQuicIntegerSize_le8[of v n] by (simp add: word_le_nat_alt)

lemma roundtrip_push_promise:
  assumes "isInternalPushId i" and sz: "getQuicIntegerSize (i AND NOT kPushIdMask) = Inr sz"
    and len: "length data < 2 ^ 63"
  shows "parseFrame h \<lparr>type' = PUSH_PROMISE, length' = sz + computeChainDataLength data\<rparr>
           (varintBytes (i AND NOT kPushIdMask) @ data @ rest)
           = Some (None, rest, [OnFrame (PushPromiseFrame i data)])"
proof -
  let ?L = "computeChainDataLength data"
  have uL: "unat ?L = length data" using len by (intro computeChainDataLength_unat) simp
  have "unat sz + unat ?L < 2 ^ 64" using getQuicIntegerSize_unat_le8[OF sz] uL len by simp
  then have "unat (sz + ?L) = unat sz + unat ?L" by (simp add: unat_add_lem[THEN iffD1])
  then have le: "sz \<le> sz + ?L" by (simp add: word_le_nat_alt)
  have dec: "decodeQuicInteger (varintBytes (i AND NOT kPushIdMask) @ data @ rest) (sz + ?L)
               = Some ((i AND NOT kPushIdMask, sz), data @ rest)"
    using decode_varintBytes[OF sz le] .
  have cl: "clone (data @ rest) ?L = Some (data, rest)" using len by (intro clone_exact) simp
  show ?thesis using assms(1)
    by (simp add: parseFrame_def parsePushPromise_def dec cl surfaced_def
          frame_types_distinct internal_push_id)
qed

lemma writeSettings_payload_append:
  "writeSettings_payload s q = q @ writeSettings_payload s []"
proof (induction s arbitrary: q)
  case Nil
  then show ?case by simp
next
  case (Cons pr s)
  show ?case
    by (simp add: Let_def snd_encodeQuicInteger Cons.IH[of "q @ _"]
                  Cons.IH[of "varintBytes (fst pr) @ varintBytes (snd pr)"])
qed

lemma varintBytes_nonempty:
  assumes "getQuicIntegerSize v = Inr n" shows "varintBytes v \<noteq> []"
proof -
  have "unat n \<noteq> 0" using assms by (auto simp: getQuicIntegerSize_def split: if_splits)
  then show ?thesis using encodeQuicInteger_Inr(2)[OF assms] by auto
qed

lemma settings_written_aux:
  "writeSettings_size s acc = Inr tot \<Longrightarrow>
     settingsPayload (writeSettings_payload s []) = Some s
     \<and> tot = acc + of_nat (length (writeSettings_payload s []))
     \<and> length (writeSettings_payload s []) \<le> 16 * length s"
proof (induction s arbitrary: acc)
  case Nil
  then show ?case by (simp add: settingsPayload.simps[of "[]"])
next
  case (Cons pr s)
  obtain i v where pr: "pr = (i, v)" by (cases pr) auto
  from Cons.prems obtain a b where a: "getQuicIntegerSize i = Inr a"
    and b: "getQuicIntegerSize v = Inr b"
    and rec: "writeSettings_size s (acc + (a + b)) = Inr tot"
    by (auto simp: pr split: sum.splits)
  let ?P = "writeSettings_payload s []"
  note IH = Cons.IH[OF rec]
  have wp: "writeSettings_payload (pr # s) [] = varintBytes i @ varintBytes v @ ?P"
    using writeSettings_payload_append[of s "varintBytes i @ varintBytes v"]
    by (simp add: pr Let_def snd_encodeQuicInteger)
  have ne: "varintBytes i @ varintBytes v @ ?P \<noteq> []" using varintBytes_nonempty[OF a] by simp
  have 1: "settingsPayload (writeSettings_payload (pr # s) []) = Some (pr # s)"
    unfolding wp using ne IH
    by (subst settingsPayload.simps) (simp add: decode_frame_header[OF a b] pr)
  have la: "length (varintBytes i) = unat a" "length (varintBytes v) = unat b"
    using encodeQuicInteger_Inr(2)[OF a] encodeQuicInteger_Inr(2)[OF b] by auto
  have 2: "tot = acc + of_nat (length (writeSettings_payload (pr # s) []))"
    unfolding wp using IH la by (simp add: of_nat_unat)
  have 3: "length (writeSettings_payload (pr # s) []) \<le> 16 * length (pr # s)"
    unfolding wp using IH la getQuicIntegerSize_unat_le8[OF a]
      getQuicIntegerSize_unat_le8[OF b] by simp
  from 1 2 3 show ?case by blast
qed

lemma settings_written:
  assumes "writeSettings_size s acc = Inr tot"
  shows "settingsPayload (writeSettings_payload s []) = Some s"
    and "tot = acc + of_nat (length (writeSettings_payload s []))"
    and "length (writeSettings_payload s []) \<le> 16 * length s"
  using settings_written_aux[OF assms] by auto

lemma roundtrip_settings:
  assumes ws: "writeSettings_size s 0 = Inr tot"
    and known: "list_all (\<lambda>pr. isKnownSetting (fst pr)) s"
    and len: "length (writeSettings_payload s []) < 2 ^ 64"
  shows "parseFrame h \<lparr>type' = SETTINGS, length' = tot\<rparr> (writeSettings_payload s [] @ rest)
           = Some (None, rest, [OnFrame (SettingsFrame s)])"
proof -
  let ?P = "writeSettings_payload s []"
  note w = settings_written[OF ws]
  note l = len
  have t: "tot = of_nat (length ?P)" using w(2) by simp
  have f: "filter (\<lambda>pr. isKnownSetting (fst pr)) s = s"
    using known by (simp add: list_all_iff)
  from parseSettings_loop_split[OF l, of rest "[]"] w(1) f
  have "parseSettings (?P @ rest) \<lparr>type' = SETTINGS, length' = tot\<rparr> []
          = (None, rest, s)"
    by (simp add: parseSettings_def t)
  then show ?thesis
    by (simp add: parseFrame_def surfaced_def frame_types_distinct)
qed

lemma decode_encode_flags:
  "decodePriorityFlags (encodePriorityFlags p) out0
     = (True, out0\<lparr>prioritizedType := prioritizedType p, dependencyType := dependencyType p,
                    exclusive := exclusive p\<rparr>)"
  by (cases "prioritizedType p"; cases "dependencyType p"; cases "exclusive p")
     (simp_all add: decodePriorityFlags_def encodePriorityFlags_def Let_def
        PRIORITIZED_TYPE_POS_def DEPENDENCY_TYPE_POS_def PRIORITY_EMPTY_POS_def
        PRIORITY_EXCLUSIVE_MASK_def PriorityElementType_cast_def)

lemma encode_flags_empty_bits:
  "encodePriorityFlags p AND push_bit PRIORITY_EMPTY_POS 0x07 = 0"
  using decode_encode_flags[of p undefined]
  by (simp add: decodePriorityFlags_def Let_def split: if_splits)

lemma priorityPayload_written:
  assumes a: "getQuicIntegerSize (prioritizedElementId p) = Inr a"
    and b: "dependencyType p \<noteq> TREE_ROOT \<Longrightarrow> getQuicIntegerSize (elementDependencyId p) = Inr b"
    and pt: "prioritizedType p \<noteq> TREE_ROOT"
    and dep: "dependencyType p = TREE_ROOT \<Longrightarrow> elementDependencyId p = elementDependencyId out0"
  shows "priorityPayload (priorityWire p) out0 = Some p"
proof (cases "dependencyType p = TREE_ROOT")
  case True
  have "out0\<lparr>prioritizedType := prioritizedType p, dependencyType := dependencyType p,
             exclusive := exclusive p, prioritizedElementId := prioritizedElementId p,
             weight := weight p\<rparr> = p"
    using dep[OF True] by (intro PriorityUpdate.equality) simp_all
  then show ?thesis using True pt
    by (simp add: priorityPayload_def priorityWire_def decode_encode_flags
          encode_flags_empty_bits decode_own_varint[OF a])
next
  case False
  have "out0\<lparr>prioritizedType := prioritizedType p, dependencyType := dependencyType p,
             exclusive := exclusive p, prioritizedElementId := prioritizedElementId p,
             elementDependencyId := elementDependencyId p, weight := weight p\<rparr> = p"
    by (intro PriorityUpdate.equality) simp_all
  then show ?thesis using False pt
    by (simp add: priorityPayload_def priorityWire_def decode_encode_flags
          encode_flags_empty_bits decode_own_varint[OF a] decode_own_varint[OF b[OF False]])
qed

lemma roundtrip_priority:
  assumes a: "getQuicIntegerSize (prioritizedElementId p) = Inr a"
    and b: "dependencyType p \<noteq> TREE_ROOT \<Longrightarrow> getQuicIntegerSize (elementDependencyId p) = Inr b"
    and pt: "prioritizedType p \<noteq> TREE_ROOT"
    and dep: "dependencyType p = TREE_ROOT
                \<Longrightarrow> elementDependencyId p = elementDependencyId (outPriority0 h)"
    and len: "length (priorityWire p) \<le> 18"
  shows "parseFrame h \<lparr>type' = PRIORITY, length' = of_nat (length (priorityWire p))\<rparr>
           (priorityWire p @ rest)
           = Some (None, rest, [OnFrame (PriorityFrame p)])"
proof -
  have l: "length (priorityWire p) < 2 ^ 64" using len by simp
  from parsePriority_split(2)[OF l _ priorityPayload_written[OF a b pt dep], of _ rest]
  have "parsePriority (priorityWire p @ rest)
          \<lparr>type' = PRIORITY, length' = of_nat (length (priorityWire p))\<rparr> (outPriority0 h)
          = (None, rest, p)"
    by simp
  then show ?thesis
    by (simp add: parseFrame_def surfaced_def frame_types_distinct)
qed

lemma small_size: "unat (n::u64) \<le> 18 \<Longrightarrow> \<exists>L. getQuicIntegerSize n = Inr L"
  by (cases n rule: getQuicIntegerSize_cases)
     (auto simp: kEightByteLimit_def word_le_nat_alt)

text \<open>A frame header and payload that parse, read by the loop of \<open>onFramedIngress\<close>.\<close>

lemma body_payload:
  assumes "frameState this = FRAME_PAYLOAD" and "length' (curHeader this) \<le> bufLen"
    and "parseFrame h (curHeader this) cursor = Some (res, cursorA, evs)"
  shows "onFramedIngress_body h this cursor bufLen events
           = Continue (this\<lparr>connError := res, frameState := FRAME_HEADER_TYPE\<rparr>, cursorA,
                       length' (curHeader this), events @ evs)"
  using assms by (simp add: onFramedIngress_body_def Let_def)

lemma body_streaming_whole:
  assumes "frameState this = FRAME_PAYLOAD_STREAMING" and "0 < bufLen"
    and "pendingDataFrameBytes this \<le> bufLen"
    and "parseFrame h \<lparr>type' = DATA, length' = pendingDataFrameBytes this\<rparr> cursor
           = Some (res, cursorA, evs)"
  shows "onFramedIngress_body h this cursor bufLen events
           = Continue (this\<lparr>connError := res, pendingDataFrameBytes := 0,
                            frameState := FRAME_HEADER_TYPE\<rparr>, cursorA,
                       pendingDataFrameBytes this, events @ evs)"
proof -
  have m: "min (pendingDataFrameBytes this) bufLen = pendingDataFrameBytes this"
    using assms(3) by (simp add: min_def)
  from assms(4) obtain outBuf where
    pd: "parseData cursor \<lparr>type' = DATA, length' = pendingDataFrameBytes this\<rparr> None
           = Some (res, cursorA, outBuf)"
    and ev: "evs = surfaced res (DataFrame (case outBuf of None \<Rightarrow> [] | Some b \<Rightarrow> b))"
    by (auto simp: parseFrame_def split: option.splits)
  show ?thesis using assms(1,2)
    by (simp add: onFramedIngress_body_def Let_def m pd ev)
qed

lemma frame_through_loop:
  assumes st: "frameState this = FRAME_HEADER_TYPE"
    and ce: "connError this = None" and np: "\<not> parserPaused this"
    and a: "getQuicIntegerSize ty = Inr a" and b: "getQuicIntegerSize len = Inr b"
    and ul: "unat len = length payload"
    and allowed: "checkFrameAllowed h ty = None"
    and nz: "ty = DATA \<longrightarrow> len \<noteq> 0"
    and pf: "parseFrame h \<lparr>type' = ty, length' = len\<rparr> (payload @ rest)
               = Some (None, rest, [OnFrame g])"
    and more: "payload \<noteq> [] \<or> rest \<noteq> []"
    and total: "length (varintBytes ty @ varintBytes len @ payload @ rest) < 2 ^ 64"
  shows "onFramedIngress_loop h this (varintBytes ty @ varintBytes len @ payload @ rest)
           (of_nat (length (varintBytes ty @ varintBytes len @ payload @ rest))) parsedTot events
         = onFramedIngress_loop h
             (this\<lparr>curHeader := \<lparr>type' = ty, length' = len\<rparr>,
                   pendingDataFrameBytes := (if ty = DATA then 0 else len),
                   totalBytesParsed := totalBytesParsed this + a + b + len\<rparr>)
             rest (of_nat (length rest)) (parsedTot + a + b + len)
             ((if callback this then events @ [OnFrameHeader (streamId this) 0 len ty]
               else events) @ [OnFrame g])"
proof -
  let ?w = "varintBytes ty @ varintBytes len @ payload @ rest"
  define B :: u64 where "B = of_nat (length ?w)"
  let ?evs = "if callback this then events @ [OnFrameHeader (streamId this) 0 len ty] else events"
  note la = encodeQuicInteger_Inr(2)[OF a] and lb = encodeQuicInteger_Inr(2)[OF b]
  have uB: "unat B = unat a + unat b + length payload + length rest"
    unfolding B_def using total la lb by (subst unat_of_nat_len) simp_all
  have pa: "0 < unat a" "0 < unat b"
    using varintBytes_nonempty[OF a] varintBytes_nonempty[OF b] la lb
    by (metis length_greater_0_conv)+
  have posB: "0 < B" using uB pa by (simp add: word_less_nat_alt)
  have leA: "a \<le> B" using uB by (simp add: word_le_nat_alt)
  have uB1: "unat (B - a) = unat b + length payload + length rest"
    using uB leA by (simp add: unat_sub)
  have posB1: "0 < B - a" using uB1 pa by (simp add: word_less_nat_alt)
  have leB: "b \<le> B - a" using uB1 by (simp add: word_le_nat_alt)
  have uB2: "unat (B - a - b) = length payload + length rest"
    using uB1 leB by (simp add: unat_sub)
  have posB2: "0 < B - a - b" using uB2 more by (auto simp: word_less_nat_alt)
  have leL: "len \<le> B - a - b" using uB2 ul by (simp add: word_le_nat_alt)
  have "unat (B - a - b - len) = length rest" using uB2 leL ul by (simp add: unat_sub)
  moreover have "unat (of_nat (length rest) :: u64) = length rest"
    using total by (intro unat_of_nat_len) simp
  ultimately have B3: "B - a - b - len = of_nat (length rest)"
    by (simp add: word_unat_eq_iff)
  note dec = decode_frame_header[OF a b, of "payload @ rest"]

  let ?s1 = "this\<lparr>curHeader := (curHeader this)\<lparr>type' := ty\<rparr>, frameState := FRAME_HEADER_LENGTH\<rparr>"
  let ?t1 = "?s1\<lparr>totalBytesParsed := totalBytesParsed ?s1 + a\<rparr>"
  have body1: "onFramedIngress_body h this ?w B events
                 = Continue (?s1, varintBytes len @ payload @ rest, a, events)"
    using body_header_type[where bufLen = B and events = events, OF st dec(1) allowed] by simp
  have step1: "onFramedIngress_loop h this ?w B parsedTot events
                 = onFramedIngress_loop h ?t1 (varintBytes len @ payload @ rest) (B - a)
                     (parsedTot + a) events"
    by (rule loop_step[OF ce posB np body1 leA])

  define nxt where "nxt = (if ty = DATA then FRAME_PAYLOAD_STREAMING else FRAME_PAYLOAD)"
  let ?s2 = "?t1\<lparr>curHeader := \<lparr>type' = ty, length' = len\<rparr>, pendingDataFrameBytes := len,
                   frameState := nxt\<rparr>"
  let ?t2 = "?s2\<lparr>totalBytesParsed := totalBytesParsed ?s2 + b\<rparr>"
  have hdr: "(curHeader ?t1)\<lparr>length' := len\<rparr> = \<lparr>type' = ty, length' = len\<rparr>"
    by (cases "curHeader this") simp
  have body2: "onFramedIngress_body h ?t1 (varintBytes len @ payload @ rest) (B - a) events
                 = Continue (?s2, payload @ rest, b, ?evs)"
  proof (cases "ty = DATA")
    case True
    with nz have "\<not> (transportSupportsPartialReliability h \<and> len = kUnframedDataFrameLen)"
      by (simp add: kUnframedDataFrameLen_def)
    from body_header_length_DATA[where this = ?t1 and h = h and bufLen = "B - a" and events = events,
            OF _ _ dec(2) this] True
    show ?thesis by (simp add: nxt_def)
  next
    case False
    from body_header_length_other[where this = ?t1 and h = h and bufLen = "B - a"
            and events = events, OF _ _ dec(2)] False
    show ?thesis by (simp add: nxt_def hdr)
  qed
  have step2: "onFramedIngress_loop h ?t1 (varintBytes len @ payload @ rest) (B - a)
                   (parsedTot + a) events
                 = onFramedIngress_loop h ?t2 (payload @ rest) (B - a - b)
                     (parsedTot + a + b) ?evs"
    using loop_step[OF _ posB1 _ body2 leB, where parsedTot = "parsedTot + a"] ce np by simp

  let ?s3 = "?t2\<lparr>connError := None, pendingDataFrameBytes := (if ty = DATA then 0 else len),
                   frameState := FRAME_HEADER_TYPE\<rparr>"
  have body3: "onFramedIngress_body h ?t2 (payload @ rest) (B - a - b) ?evs
                 = Continue (?s3, rest, len, ?evs @ [OnFrame g])"
  proof (cases "ty = DATA")
    case True
    from body_streaming_whole[where this = ?t2 and bufLen = "B - a - b" and h = h
            and cursor = "payload @ rest" and res = None and cursorA = rest
            and evs = "[OnFrame g]" and events = ?evs]
      posB2 leL pf True
    show ?thesis by (simp add: nxt_def)
  next
    case False
    from body_payload[where this = ?t2 and bufLen = "B - a - b" and h = h
            and cursor = "payload @ rest" and res = None and cursorA = rest
            and evs = "[OnFrame g]" and events = ?evs]
      leL pf False
    show ?thesis by (simp add: nxt_def)
  qed
  have step3: "onFramedIngress_loop h ?t2 (payload @ rest) (B - a - b) (parsedTot + a + b) ?evs
                 = onFramedIngress_loop h (?s3\<lparr>totalBytesParsed := totalBytesParsed ?s3 + len\<rparr>)
                     rest (B - a - b - len) (parsedTot + a + b + len) (?evs @ [OnFrame g])"
    using loop_step[OF _ posB2 _ body3 leL, where parsedTot = "parsedTot + a + b"] ce np by simp
  have fin: "?s3\<lparr>totalBytesParsed := totalBytesParsed ?s3 + len\<rparr>
               = this\<lparr>curHeader := \<lparr>type' = ty, length' = len\<rparr>,
                      pendingDataFrameBytes := (if ty = DATA then 0 else len),
                      totalBytesParsed := totalBytesParsed this + a + b + len\<rparr>"
    using st ce by simp
  show ?thesis
    unfolding B_def[symmetric] step1 step2 step3 B3 fin ..
qed

text \<open>
  Every valid frame whose varints are encodable is written as the bytes of its layout,
  and its payload parses back to the frame a receiver can get.
\<close>

lemma size_exists: "v \<le> kEightByteLimit \<Longrightarrow> \<exists>n. getQuicIntegerSize v = Inr n"
  by (cases v rule: getQuicIntegerSize_cases) auto

lemma length_fits:
  assumes "n < 2 ^ 62"
  shows "unat (of_nat n :: u64) = n" and "(of_nat n :: u64) \<le> kEightByteLimit"
proof -
  show u: "unat (of_nat n :: u64) = n" using assms by (intro unat_of_nat_len) simp
  show "(of_nat n :: u64) \<le> kEightByteLimit"
    using assms u by (simp add: word_le_nat_alt kEightByteLimit_def)
qed

lemma writeSettings_size_ok:
  assumes "list_all (\<lambda>pr. fst pr \<le> kEightByteLimit \<and> snd pr \<le> kEightByteLimit) s"
  shows "\<exists>tot. writeSettings_size s acc = Inr tot"
  using assms
proof (induction s arbitrary: acc)
  case Nil
  then show ?case by simp
next
  case (Cons pr s)
  from Cons.prems obtain a b where "getQuicIntegerSize (fst pr) = Inr a"
    "getQuicIntegerSize (snd pr) = Inr b"
    using size_exists[of "fst pr"] size_exists[of "snd pr"] by auto
  moreover from Cons.prems Cons.IH[of "acc + (a + b)"]
  obtain tot where "writeSettings_size s (acc + (a + b)) = Inr tot" by auto
  ultimately show ?case by simp
qed

lemma simple_frame_written:
  assumes a: "getQuicIntegerSize ty = Inr a" and l: "length data < 2 ^ 62"
  shows "\<exists>b. getQuicIntegerSize (computeChainDataLength data) = Inr b
           \<and> writeSimpleFrame q ty data
               = (Inr (a + b + computeChainDataLength data),
                  q @ varintBytes ty @ varintBytes (computeChainDataLength data) @ data)"
    and "unat (computeChainDataLength data) = length data"
proof -
  note f = length_fits[OF l]
  from size_exists[OF f(2)] obtain b where
    b: "getQuicIntegerSize (computeChainDataLength data) = Inr b"
    by (auto simp: computeChainDataLength_def)
  show "\<exists>b. getQuicIntegerSize (computeChainDataLength data) = Inr b
           \<and> writeSimpleFrame q ty data
               = (Inr (a + b + computeChainDataLength data),
                  q @ varintBytes ty @ varintBytes (computeChainDataLength data) @ data)"
    using b by (simp add: writeSimpleFrame_def Let_def writeFrameHeader_Inr[OF a b])
  show "unat (computeChainDataLength data) = length data"
    using f(1) by (simp add: computeChainDataLength_def)
qed

lemma id_frame_written:
  assumes a: "getQuicIntegerSize ty = Inr a" and sz: "getQuicIntegerSize v = Inr sz"
  shows "\<exists>b. getQuicIntegerSize sz = Inr b
           \<and> writeSimpleFrame q ty (varintBytes v)
               = (Inr (a + b + sz), q @ varintBytes ty @ varintBytes sz @ varintBytes v)"
    and "unat sz = length (varintBytes v)" and "length (varintBytes v) < 2 ^ 62"
proof -
  note l = encodeQuicInteger_Inr(2)[OF sz] and le = getQuicIntegerSize_unat_le8[OF sz]
  show len: "length (varintBytes v) < 2 ^ 62" using l le by simp
  show "unat sz = length (varintBytes v)" using l by simp
  from simple_frame_written(1)[OF a len, of q]
  show "\<exists>b. getQuicIntegerSize sz = Inr b
           \<and> writeSimpleFrame q ty (varintBytes v)
               = (Inr (a + b + sz), q @ varintBytes ty @ varintBytes sz @ varintBytes v)"
    by (simp add: varint_length_word[OF sz])
qed

lemma priorityWire_received:
  "priorityWire (if dependencyType p = TREE_ROOT
                 then p\<lparr>elementDependencyId := d\<rparr> else p) = priorityWire p"
  by (simp add: priorityWire_def encodePriorityFlags_def)

lemma priority_written:
  assumes a: "getQuicIntegerSize (prioritizedElementId p) = Inr a"
    and b: "dependencyType p \<noteq> TREE_ROOT \<Longrightarrow> getQuicIntegerSize (elementDependencyId p) = Inr b"
  shows "\<exists>L. getQuicIntegerSize (of_nat (length (priorityWire p))) = Inr L
           \<and> writePriority q p
               = (Inr (1 + L + of_nat (length (priorityWire p))),
                  q @ varintBytes PRIORITY @ varintBytes (of_nat (length (priorityWire p)))
                    @ priorityWire p)"
    and "length (priorityWire p) \<le> 18"
proof -
  have la: "length (varintBytes (prioritizedElementId p)) = unat a"
    using encodeQuicInteger_Inr(2)[OF a] .
  note lea = getQuicIntegerSize_unat_le8[OF a]
  have "(\<exists>L. getQuicIntegerSize (of_nat (length (priorityWire p))) = Inr L
           \<and> writePriority q p
               = (Inr (1 + L + of_nat (length (priorityWire p))),
                  q @ varintBytes PRIORITY @ varintBytes (of_nat (length (priorityWire p)))
                    @ priorityWire p))
        \<and> length (priorityWire p) \<le> 18"
  proof (cases "dependencyType p = TREE_ROOT")
    case True
    have len: "(of_nat (length (priorityWire p)) :: u64) = a + 2"
      using True la by (simp add: priorityWire_def of_nat_unat)
    have l18: "length (priorityWire p) \<le> 18" using True la lea by (simp add: priorityWire_def)
    then have "unat (of_nat (length (priorityWire p)) :: u64) \<le> 18"
      by (subst unat_of_nat_len) simp_all
    from small_size[OF this] obtain L where
      L: "getQuicIntegerSize (a + 2) = Inr L" unfolding len by auto
    show ?thesis using True a L l18 unfolding len
      by (simp add: writePriority_def Let_def writeFrameHeader_Inr[OF frame_type_sizes(3) L]
            snd_encodeQuicInteger priorityWire_def)
  next
    case False
    note b' = b[OF False]
    have lb: "length (varintBytes (elementDependencyId p)) = unat b"
      using encodeQuicInteger_Inr(2)[OF b'] .
    note leb = getQuicIntegerSize_unat_le8[OF b']
    have len: "(of_nat (length (priorityWire p)) :: u64) = a + 2 + b"
      using False la lb by (simp add: priorityWire_def of_nat_unat)
    have l18: "length (priorityWire p) \<le> 18"
      using False la lb lea leb by (simp add: priorityWire_def)
    then have "unat (of_nat (length (priorityWire p)) :: u64) \<le> 18"
      by (subst unat_of_nat_len) simp_all
    from small_size[OF this] obtain L where
      L: "getQuicIntegerSize (a + 2 + b) = Inr L" unfolding len by auto
    show ?thesis using False a b' L l18 unfolding len
      by (simp add: writePriority_def Let_def writeFrameHeader_Inr[OF frame_type_sizes(3) L]
            snd_encodeQuicInteger priorityWire_def)
  qed
  then show "\<exists>L. getQuicIntegerSize (of_nat (length (priorityWire p))) = Inr L
           \<and> writePriority q p
               = (Inr (1 + L + of_nat (length (priorityWire p))),
                  q @ varintBytes PRIORITY @ varintBytes (of_nat (length (priorityWire p)))
                    @ priorityWire p)"
    and "length (priorityWire p) \<le> 18" by blast+
qed

lemma frame_type_size: "\<exists>a. getQuicIntegerSize (frameType f) = Inr a \<and> a = 1"
  by (cases f) (simp_all add: frameType_def frame_type_sizes)

lemma writeSettings_payload_concat:
  "writeSettings_payload s q
     = q @ concat (map (\<lambda>pr. varintBytes (fst pr) @ varintBytes (snd pr)) s)"
  by (induction s arbitrary: q) (simp_all add: Let_def snd_encodeQuicInteger)

lemma of_nat_unat_length:
  "length xs = unat (n::u64) \<Longrightarrow> (of_nat (length xs) :: u64) = n"
  by (simp add: of_nat_unat)

lemma frame_written:
  assumes valid: "validFrame f" and fits: "fitsVarints f"
  shows "\<exists>b. getQuicIntegerSize (of_nat (length (payloadBytes f))) = Inr b
           \<and> writeFrame q f
               = (Inr (1 + b + of_nat (length (payloadBytes f))), q @ frameBytes f)
           \<and> parseFrame h \<lparr>type' = frameType f, length' = of_nat (length (payloadBytes f))\<rparr>
                 (payloadBytes f @ rest)
               = Some (None, rest, [OnFrame (received (outPriority0 h) f)])"
proof (cases f)
  case (DataFrame data)
  with valid fits have d: "data \<noteq> []" and l: "length data < 2 ^ 62"
    by (simp_all add: validFrame_def fitsVarints_def payloadBytes_def)
  from simple_frame_written(1)[OF frame_type_sizes(1) l, of q] roundtrip_data[OF d, of h rest] l
  show ?thesis unfolding DataFrame
    by (auto simp: writeFrame_def writeData_def frameBytes_def payloadBytes_def frameType_def
          received_def computeChainDataLength_def)
next
  case (HeadersFrame data)
  with fits have l: "length data < 2 ^ 62" by (simp add: fitsVarints_def payloadBytes_def)
  from simple_frame_written(1)[OF frame_type_sizes(2) l, of q] roundtrip_headers[of data h rest] l
  show ?thesis unfolding HeadersFrame
    by (auto simp: writeFrame_def writeHeaders_def frameBytes_def payloadBytes_def frameType_def
          received_def computeChainDataLength_def)
next
  case (PriorityFrame p)
  let ?r = "if dependencyType p = TREE_ROOT
            then p\<lparr>elementDependencyId := elementDependencyId (outPriority0 h)\<rparr> else p"
  from valid PriorityFrame have pt: "prioritizedType p \<noteq> TREE_ROOT" by (simp add: validFrame_def)
  from fits PriorityFrame obtain a where a: "getQuicIntegerSize (prioritizedElementId p) = Inr a"
    using size_exists[of "prioritizedElementId p"] by (auto simp: fitsVarints_def)
  have "\<exists>b. dependencyType p \<noteq> TREE_ROOT \<longrightarrow> getQuicIntegerSize (elementDependencyId p) = Inr b"
    using fits PriorityFrame size_exists[of "elementDependencyId p"]
    by (cases "dependencyType p = TREE_ROOT") (auto simp: fitsVarints_def)
  then obtain b where
    b: "dependencyType p \<noteq> TREE_ROOT \<Longrightarrow> getQuicIntegerSize (elementDependencyId p) = Inr b"
    by auto
  have w18: "length (priorityWire p) \<le> 18"
    by (rule priority_written(2)[OF a]) (rule b)
  note w = priority_written(1)[OF a b, of q] w18
  have "parseFrame h \<lparr>type' = PRIORITY, length' = of_nat (length (priorityWire ?r))\<rparr>
          (priorityWire ?r @ rest) = Some (None, rest, [OnFrame (PriorityFrame ?r)])"
  proof (rule roundtrip_priority[where a = a and b = b])
    show "getQuicIntegerSize (prioritizedElementId ?r) = Inr a" using a by simp
    show "getQuicIntegerSize (elementDependencyId ?r) = Inr b" if "dependencyType ?r \<noteq> TREE_ROOT"
      using that b by (simp split: if_splits)
    show "prioritizedType ?r \<noteq> TREE_ROOT" using pt by simp
    show "elementDependencyId ?r = elementDependencyId (outPriority0 h)"
      if "dependencyType ?r = TREE_ROOT"
      using that by (simp split: if_splits)
    show "length (priorityWire ?r) \<le> 18" using w(2) by (simp only: priorityWire_received)
  qed
  then have "parseFrame h \<lparr>type' = PRIORITY, length' = of_nat (length (priorityWire p))\<rparr>
          (priorityWire p @ rest) = Some (None, rest, [OnFrame (PriorityFrame ?r)])"
    by (simp only: priorityWire_received)
  with w(1) show ?thesis unfolding PriorityFrame
    by (auto simp: writeFrame_def frameBytes_def payloadBytes_def frameType_def received_def)
next
  case (CancelPushFrame i)
  let ?w = "i AND NOT kPushIdMask"
  from valid CancelPushFrame have int: "isInternalPushId i" by (simp add: validFrame_def)
  from fits CancelPushFrame obtain sz where sz: "getQuicIntegerSize ?w = Inr sz"
    using size_exists[of ?w] by (auto simp: fitsVarints_def)
  note w = id_frame_written(1)[OF frame_type_sizes(4) sz, of q]
    id_frame_written(2)[OF frame_type_sizes(4) sz]
  have len: "(of_nat (length (varintBytes ?w)) :: u64) = sz"
    using w(2) by (intro of_nat_unat_length) simp
  from w(1) roundtrip_cancel_push[OF int sz, of h rest] sz
  show ?thesis unfolding CancelPushFrame
    by (auto simp: writeFrame_def writeCancelPush_def Let_def snd_encodeQuicInteger
          frameBytes_def payloadBytes_def frameType_def received_def len)
next
  case (SettingsFrame s)
  let ?P = "concat (map (\<lambda>pr. varintBytes (fst pr) @ varintBytes (snd pr)) s)"
  from valid SettingsFrame have known: "list_all (\<lambda>pr. isKnownSetting (fst pr)) s"
    by (simp add: validFrame_def)
  from fits SettingsFrame
  have all: "list_all (\<lambda>pr. fst pr \<le> kEightByteLimit \<and> snd pr \<le> kEightByteLimit) s"
    and l: "length ?P < 2 ^ 62"
    by (simp_all add: fitsVarints_def payloadBytes_def)
  have P: "writeSettings_payload s [] = ?P" using writeSettings_payload_concat[of s "[]"] by simp
  from writeSettings_size_ok[OF all, of 0] obtain tot where t: "writeSettings_size s 0 = Inr tot"
    by auto
  have tot: "tot = of_nat (length ?P)" using settings_written(2)[OF t] P by simp
  from size_exists[OF length_fits(2)[OF l]] obtain L where
    L: "getQuicIntegerSize (of_nat (length ?P) :: u64) = Inr L" by auto
  have l64: "length (writeSettings_payload s []) < 2 ^ 64" using l P by simp
  have wr: "writeSettings q s
              = (Inr (1 + L + of_nat (length ?P)),
                 q @ varintBytes SETTINGS @ varintBytes (of_nat (length ?P)) @ ?P)"
    using t L unfolding tot
    by (simp add: writeSettings_def writeFrameHeader_Inr[OF frame_type_sizes(5) L]
          writeSettings_payload_concat)
  from wr L roundtrip_settings[OF t known l64, of h rest]
  show ?thesis unfolding SettingsFrame
    by (auto simp: writeFrame_def frameBytes_def payloadBytes_def frameType_def received_def
          P tot)
next
  case (PushPromiseFrame i data)
  let ?w = "i AND NOT kPushIdMask"
  from valid PushPromiseFrame have int: "isInternalPushId i" by (simp add: validFrame_def)
  from fits PushPromiseFrame obtain sz where sz: "getQuicIntegerSize ?w = Inr sz"
    and l: "length (varintBytes ?w @ data) < 2 ^ 62"
    using size_exists[of ?w] by (auto simp: fitsVarints_def payloadBytes_def)
  have d: "length data < 2 ^ 63" using l by simp
  have len: "sz + computeChainDataLength data = of_nat (length (varintBytes ?w @ data))"
    using encodeQuicInteger_Inr(2)[OF sz] by (simp add: computeChainDataLength_def of_nat_unat)
  from size_exists[OF length_fits(2)[OF l]] obtain L where
    L: "getQuicIntegerSize (of_nat (length (varintBytes ?w @ data)) :: u64) = Inr L" by auto
  have wr: "writePushPromise q i data
              = (Inr (1 + L + of_nat (length (varintBytes ?w @ data))),
                 q @ varintBytes PUSH_PROMISE
                   @ varintBytes (of_nat (length (varintBytes ?w @ data))) @ varintBytes ?w @ data)"
  proof -
    have L': "getQuicIntegerSize (sz + computeChainDataLength data) = Inr L"
      using L by (simp only: len)
    show ?thesis using sz unfolding len[symmetric]
      by (simp add: writePushPromise_def Let_def writeFrameHeader_Inr[OF frame_type_sizes(6) L']
            snd_encodeQuicInteger)
  qed
  from wr L roundtrip_push_promise[OF int sz d, of h rest] len
  show ?thesis unfolding PushPromiseFrame
    by (auto simp: writeFrame_def frameBytes_def payloadBytes_def frameType_def received_def)
next
  case (GoawayFrame i)
  from fits GoawayFrame obtain sz where sz: "getQuicIntegerSize i = Inr sz"
    using size_exists[of i] by (auto simp: fitsVarints_def)
  note w = id_frame_written(1)[OF frame_type_sizes(7) sz, of q]
    id_frame_written(2)[OF frame_type_sizes(7) sz]
  have len: "(of_nat (length (varintBytes i)) :: u64) = sz"
    using w(2) by (intro of_nat_unat_length) simp
  from w(1) roundtrip_goaway[OF sz, of h rest] sz
  show ?thesis unfolding GoawayFrame
    by (auto simp: writeFrame_def writeGoaway_def Let_def snd_encodeQuicInteger
          frameBytes_def payloadBytes_def frameType_def received_def len)
next
  case (MaxPushIdFrame i)
  let ?w = "i AND NOT kPushIdMask"
  from valid MaxPushIdFrame have int: "isInternalPushId i" by (simp add: validFrame_def)
  from fits MaxPushIdFrame obtain sz where sz: "getQuicIntegerSize ?w = Inr sz"
    using size_exists[of ?w] by (auto simp: fitsVarints_def)
  note w = id_frame_written(1)[OF frame_type_sizes(8) sz, of q]
    id_frame_written(2)[OF frame_type_sizes(8) sz]
  have len: "(of_nat (length (varintBytes ?w)) :: u64) = sz"
    using w(2) by (intro of_nat_unat_length) simp
  from w(1) roundtrip_max_push_id[OF int sz, of h rest] sz
  show ?thesis unfolding MaxPushIdFrame
    by (auto simp: writeFrame_def writeMaxPushId_def Let_def snd_encodeQuicInteger
          frameBytes_def payloadBytes_def frameType_def received_def len)
qed

lemma frameType_DATA:
  assumes "validFrame f" and "frameType f = DATA"
  shows "payloadBytes f \<noteq> []"
  using assms
  by (cases f) (simp_all add: validFrame_def frameType_def payloadBytes_def frame_types_distinct)

lemma frame_parsed:
  assumes valid: "validFrame f" and fits: "fitsVarints f"
    and st: "frameState this = FRAME_HEADER_TYPE"
    and ce: "connError this = None" and np: "\<not> parserPaused this"
    and allowed: "checkFrameAllowed h (frameType f) = None"
  shows "writeFrame q f = (Inr (of_nat (length (frameBytes f))), q @ frameBytes f)"
    and "(payloadBytes f \<noteq> [] \<or> rest \<noteq> []) \<Longrightarrow> length rest < 2 ^ 63 \<Longrightarrow>
         onFramedIngress_loop h this (frameBytes f @ rest)
             (of_nat (length (frameBytes f @ rest))) parsedTot events
           = onFramedIngress_loop h
               (this\<lparr>curHeader := \<lparr>type' = frameType f,
                                     length' = of_nat (length (payloadBytes f))\<rparr>,
                     pendingDataFrameBytes :=
                       (if frameType f = DATA then 0 else of_nat (length (payloadBytes f))),
                     totalBytesParsed := totalBytesParsed this + of_nat (length (frameBytes f))\<rparr>)
               rest (of_nat (length rest)) (parsedTot + of_nat (length (frameBytes f)))
               ((if callback this
                 then events @ [OnFrameHeader (streamId this) 0
                                  (of_nat (length (payloadBytes f))) (frameType f)]
                 else events) @ [OnFrame (received (outPriority0 h) f)])"
proof -
  let ?P = "payloadBytes f" and ?ty = "frameType f"
  let ?len = "of_nat (length (payloadBytes f)) :: u64"
  from fits have lP: "length ?P < 2 ^ 62" by (simp add: fitsVarints_def)
  note lf = length_fits[OF lP]
  from frame_type_size[of f] have a: "getQuicIntegerSize ?ty = Inr 1" by auto
  have ex: "\<exists>b. getQuicIntegerSize ?len = Inr b
             \<and> (\<forall>q. writeFrame q f = (Inr (1 + b + ?len), q @ frameBytes f))"
  proof -
    from frame_written[OF valid fits, of "[]" h "[]"] obtain b where
      b: "getQuicIntegerSize ?len = Inr b" by auto
    have "writeFrame q' f = (Inr (1 + b + ?len), q' @ frameBytes f)" for q'
      using frame_written[OF valid fits, of q' h "[]"] b by auto
    with b show ?thesis by blast
  qed
  then obtain b where b: "getQuicIntegerSize ?len = Inr b"
    and wr: "\<And>q. writeFrame q f = (Inr (1 + b + ?len), q @ frameBytes f)" by blast
  have pf: "parseFrame h \<lparr>type' = ?ty, length' = ?len\<rparr> (?P @ rest)
              = Some (None, rest, [OnFrame (received (outPriority0 h) f)])"
    using frame_written[OF valid fits, of q h rest] by auto
  note la = encodeQuicInteger_Inr(2)[OF a] and lb = encodeQuicInteger_Inr(2)[OF b]
  have n: "(of_nat (length (frameBytes f)) :: u64) = 1 + b + ?len"
    using la lb by (simp add: frameBytes_def of_nat_unat)
  show "writeFrame q f = (Inr (of_nat (length (frameBytes f))), q @ frameBytes f)"
    using wr[of q] n by simp
  show "onFramedIngress_loop h this (frameBytes f @ rest)
             (of_nat (length (frameBytes f @ rest))) parsedTot events
           = onFramedIngress_loop h
               (this\<lparr>curHeader := \<lparr>type' = frameType f,
                                     length' = of_nat (length (payloadBytes f))\<rparr>,
                     pendingDataFrameBytes :=
                       (if frameType f = DATA then 0 else of_nat (length (payloadBytes f))),
                     totalBytesParsed := totalBytesParsed this + of_nat (length (frameBytes f))\<rparr>)
               rest (of_nat (length rest)) (parsedTot + of_nat (length (frameBytes f)))
               ((if callback this
                 then events @ [OnFrameHeader (streamId this) 0
                                  (of_nat (length (payloadBytes f))) (frameType f)]
                 else events) @ [OnFrame (received (outPriority0 h) f)])"
    if more: "payloadBytes f \<noteq> [] \<or> rest \<noteq> []" and lr: "length rest < 2 ^ 63"
  proof -
    have nz: "?ty = DATA \<longrightarrow> ?len \<noteq> 0"
      using frameType_DATA[OF valid] lP by (auto simp: of_nat_len_eq_0)
    have total: "length (varintBytes ?ty @ varintBytes ?len @ ?P @ rest) < 2 ^ 64"
      using la lb getQuicIntegerSize_unat_le8[OF b] lP lr by simp
    have w: "frameBytes f @ rest = varintBytes ?ty @ varintBytes ?len @ ?P @ rest"
      by (simp add: frameBytes_def)
    have t: "totalBytesParsed this + 1 + b + ?len = totalBytesParsed this + (1 + b + ?len)"
      "parsedTot + 1 + b + ?len = parsedTot + (1 + b + ?len)"
      by (simp_all add: ac_simps)
    show ?thesis
      unfolding w n
      using frame_through_loop[OF st ce np a b lf(1) allowed nz pf more total,
              of parsedTot events]
      unfolding t .
  qed
qed

lemma frame_parsed_call:
  assumes valid: "validFrame f" and fits: "fitsVarints f"
    and st: "frameState this = FRAME_HEADER_TYPE"
    and ce: "connError this = None" and np: "\<not> parserPaused this"
    and allowed: "checkFrameAllowed h (frameType f) = None"
    and ne: "payloadBytes f \<noteq> []"
  shows "onFramedIngress h this (frameBytes f)
           = Some (of_nat (length (frameBytes f)),
                   this\<lparr>curHeader := \<lparr>type' = frameType f,
                                         length' = of_nat (length (payloadBytes f))\<rparr>,
                        pendingDataFrameBytes :=
                          (if frameType f = DATA then 0 else of_nat (length (payloadBytes f))),
                        totalBytesParsed := totalBytesParsed this + of_nat (length (frameBytes f))\<rparr>,
                   (if callback this
                    then [OnFrameHeader (streamId this) 0
                            (of_nat (length (payloadBytes f))) (frameType f)]
                    else []) @ [OnFrame (received (outPriority0 h) f)])"
  using frame_parsed(2)[OF valid fits st ce np allowed, of "[]" 0 "[]"] ne ce
  by (simp add: onFramedIngress_def loop_done checkConnectionError_None)

lemma received_same:
  "(case f of PriorityFrame p \<Rightarrow> dependencyType p \<noteq> TREE_ROOT | _ \<Rightarrow> True)
     \<Longrightarrow> received out0 f = f"
  by (cases f) (simp_all add: received_def)
section \<open>Facts about the header verifier\<close>

lemma onHeader_content_length:
  assumes "decodeError this = NONE" "parsingError this = []"
    and "\<not> startsWith (get name) (CHR '':'')"
    and "getHeaderCode name = HTTP_HEADER_CONTENT_LENGTH"
  shows "onHeader env this name value
           = (if (case contentLength this of
                    None \<Rightarrow> False
                  | Some recorded \<Rightarrow> recorded \<noteq> contentLengthOf env value)
              then (False, this\<lparr>regularHeaderSeen := True,
                               parsingError := ''Multiple content-length headers''\<rparr>)
              else if \<not> validateHeaderValue env value
              then (False, this\<lparr>regularHeaderSeen := True,
                               contentLength := Some (contentLengthOf env value),
                               parsingError := ''Bad header value: name='' @ get name
                                                 @ '' value='' @ value\<rparr>)
              else (True, this\<lparr>regularHeaderSeen := True,
                              contentLength := Some (contentLengthOf env value),
                              msg := (msg this)\<lparr>headers := headers (msg this)
                                        @ [AddByCode HTTP_HEADER_CONTENT_LENGTH value]\<rparr>\<rparr>))"
proof -
  consider (differs) c where "contentLength this = Some c" "c \<noteq> contentLengthOf env value"
    | (none) "contentLength this = None"
    | (same) "contentLength this = Some (contentLengthOf env value)"
    by (cases "contentLength this") auto
  then show ?thesis
  proof cases
    case differs
    then show ?thesis
      unfolding onHeader_def Let_def using assms
      by (simp add: contentLengthOf_def split del: if_split cong: if_cong)
  next
    case none
    then show ?thesis
      unfolding onHeader_def Let_def using assms
      by (cases "validateHeaderValue env value")
         (simp_all add: contentLengthOf_def split del: if_split cong: if_cong)
  next
    case same
    then show ?thesis
      unfolding onHeader_def Let_def using assms
      by (cases "validateHeaderValue env value")
         (simp_all add: contentLengthOf_def split del: if_split cong: if_cong)
  qed
qed

lemma onHeader_ignored:
  "decodeError this \<noteq> NONE \<or> parsingError this \<noteq> [] \<Longrightarrow>
     onHeader env this name value = (True, this)"
  unfolding onHeader_def by (simp split del: if_split cong: if_cong)

lemma calls_all_equal:
  assumes "decodeError this = NONE" "parsingError this = []"
    and "contentLength this = None \<or> contentLength this = Some c"
    and "list_all (isContentLength env c) nvs"
    and "list_all (\<lambda>nv. validateHeaderValue env (snd nv)) nvs"
  shows "fst (onHeader_calls env this nvs) = replicate (length nvs) True
         \<and> decodeError (snd (onHeader_calls env this nvs)) = NONE
         \<and> parsingError (snd (onHeader_calls env this nvs)) = []
         \<and> (contentLength (snd (onHeader_calls env this nvs))
              = (if nvs = [] then contentLength this else Some c))
         \<and> headers (msg (snd (onHeader_calls env this nvs)))
              = headers (msg this) @ map (\<lambda>nv. AddByCode HTTP_HEADER_CONTENT_LENGTH (snd nv)) nvs"
  using assms
proof (induction nvs arbitrary: this)
  case Nil
  then show ?case by simp
next
  case (Cons nv nvs)
  obtain name val where nv: "nv = (name, val)" by (cases nv) auto
  from Cons.prems nv have n: "\<not> startsWith (get name) (CHR '':'')"
    "getHeaderCode name = HTTP_HEADER_CONTENT_LENGTH" "contentLengthOf env val = c"
    "validateHeaderValue env val"
    by (simp_all add: isContentLength_def)
  let ?t = "this\<lparr>regularHeaderSeen := True, contentLength := Some c,
                  msg := (msg this)\<lparr>headers := headers (msg this)
                            @ [AddByCode HTTP_HEADER_CONTENT_LENGTH val]\<rparr>\<rparr>"
  have step: "onHeader env this name val = (True, ?t)"
    using onHeader_content_length[OF Cons.prems(1,2) n(1,2), of env val] n(3,4) Cons.prems(3)
    by auto
  have "decodeError ?t = NONE" "parsingError ?t = []"
    "contentLength ?t = None \<or> contentLength ?t = Some c"
    using Cons.prems by simp_all
  note IH = Cons.IH[OF this]
  obtain rs t where r: "onHeader_calls env ?t nvs = (rs, t)"
    by (cases "onHeader_calls env ?t nvs") auto
  have all: "list_all (isContentLength env c) nvs"
    "list_all (\<lambda>nv. validateHeaderValue env (snd nv)) nvs"
    using Cons.prems(4,5) by simp_all
  have whole: "onHeader_calls env this (nv # nvs) = (True # rs, t)"
    by (simp add: nv step r)
  from IH[OF all] show ?case unfolding whole r by (cases "nvs = []") (simp_all add: nv)
qed

text \<open>
  Only a Content-Length whose parsed value differs from the recorded one sets the error
  "Multiple content-length headers", whatever other headers come in between.
\<close>

lemma onHeader_pseudo:
  assumes "decodeError this = NONE" "parsingError this = []"
    and "startsWith (get name) (CHR '':'')"
  shows "contentLength (snd (onHeader env this name val)) = contentLength this"
    and "parsingError (snd (onHeader env this name val)) \<noteq> ''Multiple content-length headers''"
  using assms unfolding onHeader_def Let_def
  by (auto split: option.splits prod.splits)

lemma onHeader_regular_other:
  assumes "decodeError this = NONE" "parsingError this = []"
    and "\<not> startsWith (get name) (CHR '':'')"
    and "getHeaderCode name \<noteq> HTTP_HEADER_CONTENT_LENGTH"
  shows "contentLength (snd (onHeader env this name val)) = contentLength this"
    and "parsingError (snd (onHeader env this name val)) \<noteq> ''Multiple content-length headers''"
  using assms unfolding onHeader_def Let_def
  by (auto split: option.splits prod.splits)

lemma onHeader_keeps_agreement:
  assumes c: "contentLength this = None \<or> contentLength this = Some c"
    and p: "parsingError this \<noteq> ''Multiple content-length headers''"
    and v: "isContentLengthName name \<longrightarrow> contentLengthOf env val = c"
  shows "contentLength (snd (onHeader env this name val)) = None
           \<or> contentLength (snd (onHeader env this name val)) = Some c"
    and "parsingError (snd (onHeader env this name val)) \<noteq> ''Multiple content-length headers''"
proof -
  have "(contentLength (snd (onHeader env this name val)) = None
           \<or> contentLength (snd (onHeader env this name val)) = Some c)
        \<and> parsingError (snd (onHeader env this name val)) \<noteq> ''Multiple content-length headers''"
  proof (cases "decodeError this \<noteq> NONE \<or> parsingError this \<noteq> []")
    case True
    then show ?thesis using c p by (simp add: onHeader_ignored)
  next
    case False
    then have ok: "decodeError this = NONE" "parsingError this = []" by simp_all
    show ?thesis
    proof (cases "startsWith (get name) (CHR '':'')")
      case True
      from onHeader_pseudo[OF ok True, of env val] c show ?thesis by simp
    next
      case nps: False
      show ?thesis
      proof (cases "getHeaderCode name = HTTP_HEADER_CONTENT_LENGTH")
        case True
        with nps v have "contentLengthOf env val = c" by (simp add: isContentLengthName_def)
        with onHeader_content_length[OF ok nps True, of env val] c ok show ?thesis by auto
      next
        case False
        from onHeader_regular_other[OF ok nps False, of env val] c show ?thesis by simp
      qed
    qed
  qed
  then show "contentLength (snd (onHeader env this name val)) = None
           \<or> contentLength (snd (onHeader env this name val)) = Some c"
    and "parsingError (snd (onHeader env this name val)) \<noteq> ''Multiple content-length headers''"
    by simp_all
qed

lemma calls_keep_agreement:
  assumes "contentLength this = None \<or> contentLength this = Some c"
    and "parsingError this \<noteq> ''Multiple content-length headers''"
    and "list_all (\<lambda>nv. isContentLengthName (fst nv) \<longrightarrow> contentLengthOf env (snd nv) = c) nvs"
  shows "(contentLength (snd (onHeader_calls env this nvs)) = None
           \<or> contentLength (snd (onHeader_calls env this nvs)) = Some c)
         \<and> parsingError (snd (onHeader_calls env this nvs)) \<noteq> ''Multiple content-length headers''"
  using assms
proof (induction nvs arbitrary: this)
  case Nil
  then show ?case by simp
next
  case (Cons nv nvs)
  obtain name val where nv: "nv = (name, val)" by (cases nv) auto
  obtain r t where step: "onHeader env this name val = (r, t)"
    by (cases "onHeader env this name val") auto
  from Cons.prems(3) nv have v: "isContentLengthName name \<longrightarrow> contentLengthOf env val = c"
    and rest: "list_all (\<lambda>nv. isContentLengthName (fst nv) \<longrightarrow> contentLengthOf env (snd nv) = c) nvs"
    by simp_all
  from onHeader_keeps_agreement[OF Cons.prems(1,2) v] step
  have t: "contentLength t = None \<or> contentLength t = Some c"
    "parsingError t \<noteq> ''Multiple content-length headers''" by simp_all
  obtain rs u where r: "onHeader_calls env t nvs = (rs, u)"
    by (cases "onHeader_calls env t nvs") auto
  from Cons.IH[OF t rest] r show ?case by (simp add: nv step)
qed
section \<open>The framer on oversized lengths\<close>

text \<open>
  C1 (every writer fails on a varint of \<open>2^62\<close> or more and leaves the queue as it was):
  not what \<open>writeData\<close> does when the varint is the frame length.  For a payload of
  \<open>2^62\<close> bytes \<open>writeFrameHeader\<close> has appended the type byte \<open>0x00\<close> of DATA to the
  caller's queue by the time the length fails to encode, and the error is returned with
  that byte left in the queue.
\<close>

theorem C1_writeData_oversized_length_leaves_type_byte:
  "writeData queue (replicate (2 ^ 62) 0) = (Inl INTERNAL_ERROR, queue @ [0x00])"
proof -
  have len: "\<not> computeChainDataLength (replicate (2 ^ 62) (0::byte)) \<le> kEightByteLimit"
    by (simp add: computeChainDataLength_def kEightByteLimit_def)
  have "varintBytes DATA = [0x00]"
    by (simp add: varintBytes_small DATA_def kOneByteLimit_def)
  then show ?thesis
    using writeFrameHeader_length_error[OF frame_type_sizes(1) len, of queue]
    by (simp add: writeData_def writeSimpleFrame_def)
qed

section \<open>Push identifiers\<close>

text \<open>
  C7: a push id that \<open>parseCancelPush\<close>, \<open>parsePushPromise\<close> or \<open>parseMaxPushId\<close>
  returns with success has the \<open>kPushIdMask\<close> bit set; \<open>writeCancelPush\<close>,
  \<open>writePushPromise\<close> and \<open>writeMaxPushId\<close>, when they succeed, have appended a frame
  whose push id varint is the id with the mask cleared: that value has no mask bit and
  is what a decoder reads back from those bytes.
\<close>

theorem C7_push_id_internal_when_parsed_external_on_wire:
  "(parseCancelPush cursor header out0 = (None, cursor1, pushId) \<longrightarrow> isInternalPushId pushId)
   \<and> (parsePushPromise cursor header out0 outBuf = Some (None, cursor1, pushId, buf)
        \<longrightarrow> isInternalPushId pushId)
   \<and> (parseMaxPushId cursor header out0 = (None, cursor1, pushId) \<longrightarrow> isInternalPushId pushId)
   \<and> (writeCancelPush q wid = (Inr n, q1) \<longrightarrow>
        isExternalPushId (wid AND NOT kPushIdMask)
        \<and> (\<exists>len sz. q1 = q @ varintBytes CANCEL_PUSH @ varintBytes len
                           @ varintBytes (wid AND NOT kPushIdMask)
              \<and> decodeQuicInteger (varintBytes (wid AND NOT kPushIdMask)) 8
                  = Some ((wid AND NOT kPushIdMask, sz), [])))
   \<and> (writePushPromise q wid data = (Inr n, q2) \<longrightarrow>
        isExternalPushId (wid AND NOT kPushIdMask)
        \<and> (\<exists>len sz. q2 = q @ varintBytes PUSH_PROMISE @ varintBytes len
                           @ varintBytes (wid AND NOT kPushIdMask) @ data
              \<and> decodeQuicInteger (varintBytes (wid AND NOT kPushIdMask) @ data) 8
                  = Some ((wid AND NOT kPushIdMask, sz), data)))
   \<and> (writeMaxPushId q wid = (Inr n, q3) \<longrightarrow>
        isExternalPushId (wid AND NOT kPushIdMask)
        \<and> (\<exists>len sz. q3 = q @ varintBytes MAX_PUSH_ID @ varintBytes len
                           @ varintBytes (wid AND NOT kPushIdMask)
              \<and> decodeQuicInteger (varintBytes (wid AND NOT kPushIdMask)) 8
                  = Some ((wid AND NOT kPushIdMask, sz), [])))"
proof (intro conjI impI)
  let ?w = "wid AND NOT kPushIdMask"
  show "isInternalPushId pushId" if "parseCancelPush cursor header out0 = (None, cursor1, pushId)"
    using that by (rule parseCancelPush_internal)
  show "isInternalPushId pushId"
    if "parsePushPromise cursor header out0 outBuf = Some (None, cursor1, pushId, buf)"
    using that by (rule parsePushPromise_internal)
  show "isInternalPushId pushId" if "parseMaxPushId cursor header out0 = (None, cursor1, pushId)"
    using that by (rule parseMaxPushId_internal)
  show "isExternalPushId ?w" "isExternalPushId ?w" "isExternalPushId ?w"
    by (rule isExternalPushId_clear)+
  show "\<exists>len sz. q1 = q @ varintBytes CANCEL_PUSH @ varintBytes len @ varintBytes ?w
          \<and> decodeQuicInteger (varintBytes ?w) 8 = Some ((?w, sz), [])"
    if w: "writeCancelPush q wid = (Inr n, q1)"
  proof -
    from w obtain sz where "getQuicIntegerSize ?w = Inr sz"
      by (cases ?w rule: getQuicIntegerSize_cases) (auto simp: writeCancelPush_def Let_def)
    from decode_own_varint[OF this, of "[]"] writeCancelPush_wire[OF w]
    show ?thesis by auto
  qed
  show "\<exists>len sz. q2 = q @ varintBytes PUSH_PROMISE @ varintBytes len @ varintBytes ?w @ data
          \<and> decodeQuicInteger (varintBytes ?w @ data) 8 = Some ((?w, sz), data)"
    if w: "writePushPromise q wid data = (Inr n, q2)"
  proof -
    from w obtain sz where "getQuicIntegerSize ?w = Inr sz"
      by (cases ?w rule: getQuicIntegerSize_cases) (auto simp: writePushPromise_def Let_def)
    from decode_own_varint[OF this, of data] writePushPromise_wire[OF w]
    show ?thesis by auto
  qed
  show "\<exists>len sz. q3 = q @ varintBytes MAX_PUSH_ID @ varintBytes len @ varintBytes ?w
          \<and> decodeQuicInteger (varintBytes ?w) 8 = Some ((?w, sz), [])"
    if w: "writeMaxPushId q wid = (Inr n, q3)"
  proof -
    from w obtain sz where "getQuicIntegerSize ?w = Inr sz"
      by (cases ?w rule: getQuicIntegerSize_cases) (auto simp: writeMaxPushId_def Let_def)
    from decode_own_varint[OF this, of "[]"] writeMaxPushId_wire[OF w]
    show ?thesis by auto
  qed
qed

theorem C7_push_id_witness:
  "parseCancelPush [0x05] \<lparr>type' = CANCEL_PUSH, length' = 1\<rparr> 0 = (None, [], 0x8000000000000005)
   \<and> parsePushPromise [0x05] \<lparr>type' = CANCEL_PUSH, length' = 1\<rparr> 0 None
        = Some (None, [], 0x8000000000000005, Some [])
   \<and> parseMaxPushId [0x05] \<lparr>type' = CANCEL_PUSH, length' = 1\<rparr> 0
        = (None, [], 0x8000000000000005)
   \<and> writeCancelPush [] 0x8000000000000005 = (Inr 3, [0x03, 0x01, 0x05])
   \<and> writePushPromise [] 0x8000000000000005 [] = (Inr 3, [0x05, 0x01, 0x05])
   \<and> writeMaxPushId [] 0x8000000000000005 = (Inr 3, [0x0D, 0x01, 0x05])
   \<and> isInternalPushId 0x8000000000000005
   \<and> isExternalPushId (0x8000000000000005 AND NOT kPushIdMask)"
proof -
  have p1: "parseCancelPush [0x05] \<lparr>type' = CANCEL_PUSH, length' = 1\<rparr> 0
              = (None, [], 0x8000000000000005)"
    by (simp add: parseCancelPush_def decodeQuicInteger_def readBE_def kPushIdMask_def)
  have p2: "parsePushPromise [0x05] \<lparr>type' = CANCEL_PUSH, length' = 1\<rparr> 0 None
              = Some (None, [], 0x8000000000000005, Some [])"
    by (simp add: parsePushPromise_def decodeQuicInteger_def readBE_def kPushIdMask_def
                  clone_def)
  have p3: "parseMaxPushId [0x05] \<lparr>type' = CANCEL_PUSH, length' = 1\<rparr> 0
              = (None, [], 0x8000000000000005)"
    by (simp add: parseMaxPushId_def decodeQuicInteger_def readBE_def kPushIdMask_def)
  have w1: "writeCancelPush [] 0x8000000000000005 = (Inr 3, [0x03, 0x01, 0x05])"
    by (simp add: writeCancelPush_def getQuicIntegerSize_def encodeQuicInteger_def
          kPushIdMask_def writeSimpleFrame_def writeFrameHeader_def computeChainDataLength_def
          CANCEL_PUSH_def kOneByteLimit_def)
  have w2: "writePushPromise [] 0x8000000000000005 [] = (Inr 3, [0x05, 0x01, 0x05])"
    by (simp add: writePushPromise_def getQuicIntegerSize_def encodeQuicInteger_def
          kPushIdMask_def writeFrameHeader_def computeChainDataLength_def
          PUSH_PROMISE_def kOneByteLimit_def)
  have w3: "writeMaxPushId [] 0x8000000000000005 = (Inr 3, [0x0D, 0x01, 0x05])"
    by (simp add: writeMaxPushId_def getQuicIntegerSize_def encodeQuicInteger_def
          kPushIdMask_def writeSimpleFrame_def writeFrameHeader_def computeChainDataLength_def
          MAX_PUSH_ID_def kOneByteLimit_def)
  from C7_push_id_internal_when_parsed_external_on_wire
         [of "[0x05]" "\<lparr>type' = CANCEL_PUSH, length' = 1\<rparr>" 0 "[]" "0x8000000000000005"
             None "Some []" "[]" "0x8000000000000005" 3 "[0x03, 0x01, 0x05]" "[]"
             "[0x05, 0x01, 0x05]" "[0x0D, 0x01, 0x05]"]
       p1 p2 p3 w1 w2 w3
  show ?thesis by simp
qed

section \<open>The streaming parser after an error\<close>

text \<open>
  C3: once \<open>connError\<close> is set, a call of \<open>onFramedIngress\<close> returns 0, leaves the codec
  as it is (so nothing is consumed and the error stays set) and emits no event, and so
  does every call of any further sequence; over any sequence of calls an \<open>onError\<close> is
  the last event emitted, so there is at most one; and a call that emits \<open>onError\<close>
  leaves \<open>connError\<close> set.
\<close>

theorem C3_no_activity_after_connection_error:
  "(connError this \<noteq> None \<longrightarrow> onFramedIngress h this buf = Some (0, this, []))
   \<and> (connError this \<noteq> None \<longrightarrow>
        onFramedIngress_calls h this bufs = Some (this, replicate (length bufs) (0, [])))
   \<and> (onFramedIngress_calls h thisA bufsA = Some (thisB, rs) \<longrightarrow>
        errorOnlyLast (concat (map snd rs))
        \<and> length (filter isOnError (concat (map snd rs))) \<le> 1)
   \<and> (onFramedIngress h thisC bufC = Some (n, thisD, evs) \<and> (\<exists>e\<in>set evs. isOnError e) \<longrightarrow>
        connError thisD \<noteq> None)"
proof (intro conjI impI)
  show "onFramedIngress h this buf = Some (0, this, [])" if "connError this \<noteq> None"
    using that by (rule onFramedIngress_after_error)
  show "onFramedIngress_calls h this bufs = Some (this, replicate (length bufs) (0, []))"
    if "connError this \<noteq> None"
    using that by (rule calls_after_error)
  show "errorOnlyLast (concat (map snd rs))"
    if "onFramedIngress_calls h thisA bufsA = Some (thisB, rs)"
    using that by (rule calls_errorOnlyLast)
  then show "length (filter isOnError (concat (map snd rs))) \<le> 1"
    if "onFramedIngress_calls h thisA bufsA = Some (thisB, rs)"
    using that by (intro errorOnlyLast_count)
  show "connError thisD \<noteq> None"
    if "onFramedIngress h thisC bufC = Some (n, thisD, evs) \<and> (\<exists>e\<in>set evs. isOnError e)"
    using that call_events(2)[of h thisC bufC n thisD evs] by auto
qed

theorem C3_after_error_witness:
  "connError (freshCodec\<lparr>connError := Some HTTP_MALFORMED_FRAME_DATA\<rparr>) \<noteq> None
   \<and> onFramedIngress exampleHooks (freshCodec\<lparr>connError := Some HTTP_MALFORMED_FRAME_DATA\<rparr>)
        [0x01, 0x00] = Some (0, freshCodec\<lparr>connError := Some HTTP_MALFORMED_FRAME_DATA\<rparr>, [])
   \<and> onFramedIngress_calls exampleHooks
        (freshCodec\<lparr>connError := Some HTTP_MALFORMED_FRAME_DATA\<rparr>) [[0x01], [0x00]]
        = Some (freshCodec\<lparr>connError := Some HTTP_MALFORMED_FRAME_DATA\<rparr>, [(0, []), (0, [])])
   \<and> onFramedIngress_calls exampleHooks freshCodec [[0x02, 0x01, 0x0E], [0x01, 0x00]]
        = Some (freshCodec\<lparr>curHeader := \<lparr>type' = 2, length' = 1\<rparr>,
                           pendingDataFrameBytes := 1, totalBytesParsed := 3,
                           connError := Some HTTP_MALFORMED_FRAME_PRIORITY,
                           parserPaused := True\<rparr>,
                [(3, [OnFrameHeader 0 0 1 2, OnError HTTP_MALFORMED_FRAME_PRIORITY]), (0, [])])
   \<and> errorOnlyLast [OnFrameHeader 0 0 1 2, OnError HTTP_MALFORMED_FRAME_PRIORITY]
   \<and> length (filter isOnError [OnFrameHeader 0 0 1 2, OnError HTTP_MALFORMED_FRAME_PRIORITY]) \<le> 1
   \<and> connError (freshCodec\<lparr>curHeader := \<lparr>type' = 2, length' = 1\<rparr>,
                           pendingDataFrameBytes := 1, totalBytesParsed := 3,
                           connError := Some HTTP_MALFORMED_FRAME_PRIORITY,
                           parserPaused := True\<rparr>) \<noteq> None"
proof -
  let ?e = "freshCodec\<lparr>connError := Some HTTP_MALFORMED_FRAME_DATA\<rparr>"
  let ?p = "freshCodec\<lparr>curHeader := \<lparr>type' = 2, length' = 1\<rparr>,
                       pendingDataFrameBytes := 1, totalBytesParsed := 3,
                       connError := Some HTTP_MALFORMED_FRAME_PRIORITY,
                       parserPaused := True\<rparr>"
  let ?evs = "[OnFrameHeader 0 0 1 2, OnError HTTP_MALFORMED_FRAME_PRIORITY]"
  have call: "onFramedIngress exampleHooks freshCodec [0x02, 0x01, 0x0E] = Some (3, ?p, ?evs)"
    by (simp add: onFramedIngress_def onFramedIngress_loop.simps exampleHooks_def freshCodec_def
          onFramedIngress_body_def
          decodeQuicInteger_def readBE_def DATA_def HEADERS_def PRIORITY_def
          checkConnectionError_def parseFrame_def parsePriority_def decodePriorityFlags_def
          PRIORITIZED_TYPE_POS_def DEPENDENCY_TYPE_POS_def PRIORITY_EMPTY_POS_def
          PRIORITY_EXCLUSIVE_MASK_def PriorityElementType_cast_def surfaced_def)
  have after: "onFramedIngress exampleHooks ?p [0x01, 0x00] = Some (0, ?p, [])"
    by (simp add: onFramedIngress_def freshCodec_def)
  have calls: "onFramedIngress_calls exampleHooks freshCodec [[0x02, 0x01, 0x0E], [0x01, 0x00]]
                 = Some (?p, [(3, ?evs), (0, [])])"
    by (simp add: call after)
  have err: "connError ?e \<noteq> None" by simp
  from C3_no_activity_after_connection_error
         [where this = ?e and h = exampleHooks and buf = "[0x01, 0x00]"
            and bufs = "[[0x01], [0x00]]" and thisA = freshCodec
            and bufsA = "[[0x02, 0x01, 0x0E], [0x01, 0x00]]" and thisB = ?p
            and rs = "[(3, ?evs), (0, [])]" and thisC = freshCodec
            and bufC = "[0x02, 0x01, 0x0E]" and n = 3 and thisD = ?p and evs = ?evs]
       err calls call
  show ?thesis by simp
qed

section \<open>DATA frames\<close>

text \<open>
  C4 as stated (every DATA frame whose header length is 0 makes the parser surface
  \<open>HTTP_MALFORMED_FRAME_DATA\<close>) fails in two situations.  On a transport that supports
  partial reliability the bytes \<open>0x00 0x00\<close> (type DATA, length 0) start the partially
  reliable body: the codec reports the body offset, hands the bytes that follow to
  \<open>parsePartiallyReliableData\<close> and sets no error.  On any other transport, when the
  input ends with the header, the two bytes are consumed, the codec waits in
  \<open>FRAME_PAYLOAD_STREAMING\<close>, \<open>connError\<close> is not set and no \<open>onError\<close> is emitted.
\<close>

theorem C4_zero_length_DATA_without_error:
  "onFramedIngress (exampleHooks\<lparr>transportSupportsPartialReliability := True\<rparr>) freshCodec
      [0x00, 0x00, 0x61]
     = Some (3, freshCodec\<lparr>frameState := FRAME_PAYLOAD_PARTIALLY_RELIABLE_STREAMING,
                            totalBytesParsed := 3\<rparr>,
             [OnFrameHeader 0 0 0 0, OnIngressPartiallyReliableBodyStarted 2])
   \<and> connError (freshCodec\<lparr>frameState := FRAME_PAYLOAD_PARTIALLY_RELIABLE_STREAMING,
                            totalBytesParsed := 3\<rparr>) = None
   \<and> onFramedIngress exampleHooks freshCodec [0x00, 0x00]
     = Some (2, freshCodec\<lparr>frameState := FRAME_PAYLOAD_STREAMING, totalBytesParsed := 2\<rparr>,
             [OnFrameHeader 0 0 0 0])
   \<and> connError (freshCodec\<lparr>frameState := FRAME_PAYLOAD_STREAMING, totalBytesParsed := 2\<rparr>)
       = None"
  by (simp add: onFramedIngress_def onFramedIngress_loop.simps exampleHooks_def freshCodec_def
        onFramedIngress_body_def decodeQuicInteger_def readBE_def DATA_def
        checkConnectionError_def kUnframedDataFrameLen_def)

text \<open>
  C4, amended: \<open>parseData\<close> returns \<open>HTTP_MALFORMED_FRAME_DATA\<close> for a header of length 0
  and consumes nothing.  On a transport without partial reliability \<open>onFramedIngress\<close>
  surfaces that error (\<open>connError\<close> set, parser paused, \<open>onError\<close> emitted, nothing consumed
  beyond the header) as soon as at least one byte of input follows a DATA header whose
  length varint, in any of its encodings, is 0: in a call that starts at the frame type,
  in a call that starts at the length, in a later call that finds the codec waiting for
  the payload, and in the middle of a call, after earlier frames.  On a transport with
  partial reliability such a header is no error: it moves the parser to
  \<open>FRAME_PAYLOAD_PARTIALLY_RELIABLE_STREAMING\<close> and reports the offset of the body.  For a
  header length above 0 with that many bytes available \<open>parseData\<close> succeeds and clones
  exactly the first \<open>length\<close> bytes.
\<close>

theorem C4_DATA_zero_length_rejected_nonzero_cloned:
  "(length' header = 0 \<longrightarrow>
      parseData cursor header outBuf = Some (Some HTTP_MALFORMED_FRAME_DATA, cursor, outBuf))
   \<and> (frameState thisT = FRAME_HEADER_TYPE \<and> connError thisT = None \<and> \<not> parserPaused thisT
        \<and> \<not> transportSupportsPartialReliability h \<and> checkFrameAllowed h DATA = None
        \<and> decodeQuicInteger bufT 8 = Some ((DATA, kT), cursorT)
        \<and> decodeQuicInteger cursorT 8 = Some ((0, kU), cursorU)
        \<and> cursorU \<noteq> [] \<and> length bufT < 2 ^ 64 \<longrightarrow>
        onFramedIngress h thisT bufT
          = Some (kT + kU,
                  thisT\<lparr>curHeader := \<lparr>type' = DATA, length' = 0\<rparr>,
                        pendingDataFrameBytes := 0,
                        frameState := FRAME_HEADER_TYPE,
                        connError := Some HTTP_MALFORMED_FRAME_DATA,
                        totalBytesParsed := totalBytesParsed thisT + kT + kU,
                        parserPaused := True\<rparr>,
                  if callback thisT
                  then [OnFrameHeader (streamId thisT) 0 0 DATA, OnError HTTP_MALFORMED_FRAME_DATA]
                  else []))
   \<and> (frameState this = FRAME_HEADER_LENGTH \<and> type' (curHeader this) = DATA
        \<and> connError this = None \<and> \<not> parserPaused this
        \<and> \<not> transportSupportsPartialReliability h
        \<and> decodeQuicInteger bufL 8 = Some ((0, kL), cursorL)
        \<and> cursorL \<noteq> [] \<and> length bufL < 2 ^ 64 \<longrightarrow>
        onFramedIngress h this bufL
          = Some (kL,
                  this\<lparr>curHeader := \<lparr>type' = DATA, length' = 0\<rparr>,
                       pendingDataFrameBytes := 0,
                       frameState := FRAME_HEADER_TYPE,
                       connError := Some HTTP_MALFORMED_FRAME_DATA,
                       totalBytesParsed := totalBytesParsed this + kL,
                       parserPaused := True\<rparr>,
                  if callback this
                  then [OnFrameHeader (streamId this) 0 0 DATA, OnError HTTP_MALFORMED_FRAME_DATA]
                  else []))
   \<and> (frameState this' = FRAME_PAYLOAD_STREAMING \<and> pendingDataFrameBytes this' = 0
        \<and> connError this' = None \<and> \<not> parserPaused this'
        \<and> buf \<noteq> [] \<and> length buf < 2 ^ 64 \<longrightarrow>
        onFramedIngress h this' buf
          = Some (0,
                  this'\<lparr>connError := Some HTTP_MALFORMED_FRAME_DATA,
                        pendingDataFrameBytes := 0,
                        frameState := FRAME_HEADER_TYPE,
                        totalBytesParsed := totalBytesParsed this',
                        parserPaused := True\<rparr>,
                  if callback this' then [OnError HTTP_MALFORMED_FRAME_DATA] else []))
   \<and> (frameState thisM = FRAME_HEADER_TYPE \<and> connError thisM = None \<and> \<not> parserPaused thisM
        \<and> \<not> transportSupportsPartialReliability h \<and> checkFrameAllowed h DATA = None
        \<and> decodeQuicInteger cursorM 8 = Some ((DATA, kM), cursorN)
        \<and> decodeQuicInteger cursorN 8 = Some ((0, kN), cursorO)
        \<and> unat kM + unat kN < unat bufLenM \<longrightarrow>
        onFramedIngress_loop h thisM cursorM bufLenM parsedTotM eventsM
          = Some (thisM\<lparr>curHeader := \<lparr>type' = DATA, length' = 0\<rparr>,
                        pendingDataFrameBytes := 0,
                        frameState := FRAME_HEADER_TYPE,
                        connError := Some HTTP_MALFORMED_FRAME_DATA,
                        totalBytesParsed := totalBytesParsed thisM + kM + kN\<rparr>,
                  parsedTotM + kM + kN,
                  if callback thisM
                  then eventsM @ [OnFrameHeader (streamId thisM) 0 0 DATA] else eventsM))
   \<and> (frameState thisP = FRAME_HEADER_LENGTH \<and> type' (curHeader thisP) = DATA
        \<and> transportSupportsPartialReliability hP
        \<and> decodeQuicInteger cursorP 8 = Some ((0, kP), restP) \<longrightarrow>
        onFramedIngress_body hP thisP cursorP bufLenP eventsP
          = Continue (thisP\<lparr>curHeader := \<lparr>type' = DATA, length' = 0\<rparr>,
                            pendingDataFrameBytes := 0,
                            frameState := FRAME_PAYLOAD_PARTIALLY_RELIABLE_STREAMING\<rparr>,
                      restP, kP,
                      (if callback thisP
                       then eventsP @ [OnFrameHeader (streamId thisP) 0 0 DATA] else eventsP)
                      @ [OnIngressPartiallyReliableBodyStarted (totalBytesParsed thisP + kP)]))
   \<and> (length' header' \<noteq> 0 \<and> unat (length' header') \<le> length cursor \<longrightarrow>
        parseData cursor header' outBuf
          = Some (None, drop (unat (length' header')) cursor,
                  Some (take (unat (length' header')) cursor))
        \<and> length (take (unat (length' header')) cursor) = unat (length' header'))"
proof (intro conjI impI)
  show "parseData cursor header outBuf = Some (Some HTTP_MALFORMED_FRAME_DATA, cursor, outBuf)"
    if "length' header = 0"
    using that by (rule parseData_zero)
  show "onFramedIngress h thisT bufT
          = Some (kT + kU,
                  thisT\<lparr>curHeader := \<lparr>type' = DATA, length' = 0\<rparr>,
                        pendingDataFrameBytes := 0,
                        frameState := FRAME_HEADER_TYPE,
                        connError := Some HTTP_MALFORMED_FRAME_DATA,
                        totalBytesParsed := totalBytesParsed thisT + kT + kU,
                        parserPaused := True\<rparr>,
                  if callback thisT
                  then [OnFrameHeader (streamId thisT) 0 0 DATA, OnError HTTP_MALFORMED_FRAME_DATA]
                  else [])"
    if "frameState thisT = FRAME_HEADER_TYPE \<and> connError thisT = None \<and> \<not> parserPaused thisT
        \<and> \<not> transportSupportsPartialReliability h \<and> checkFrameAllowed h DATA = None
        \<and> decodeQuicInteger bufT 8 = Some ((DATA, kT), cursorT)
        \<and> decodeQuicInteger cursorT 8 = Some ((0, kU), cursorU)
        \<and> cursorU \<noteq> [] \<and> length bufT < 2 ^ 64"
    using that by (intro call_zero_length_DATA_from_type[where cursorA = cursorT and cursorB = cursorU]) auto
  show "onFramedIngress h this bufL
          = Some (kL,
                  this\<lparr>curHeader := \<lparr>type' = DATA, length' = 0\<rparr>,
                       pendingDataFrameBytes := 0,
                       frameState := FRAME_HEADER_TYPE,
                       connError := Some HTTP_MALFORMED_FRAME_DATA,
                       totalBytesParsed := totalBytesParsed this + kL,
                       parserPaused := True\<rparr>,
                  if callback this
                  then [OnFrameHeader (streamId this) 0 0 DATA, OnError HTTP_MALFORMED_FRAME_DATA]
                  else [])"
    if "frameState this = FRAME_HEADER_LENGTH \<and> type' (curHeader this) = DATA
        \<and> connError this = None \<and> \<not> parserPaused this
        \<and> \<not> transportSupportsPartialReliability h
        \<and> decodeQuicInteger bufL 8 = Some ((0, kL), cursorL)
        \<and> cursorL \<noteq> [] \<and> length bufL < 2 ^ 64"
    using that by (intro call_zero_length_DATA_from_length[where cursorA = cursorL]) auto
  show "onFramedIngress h this' buf
          = Some (0,
                  this'\<lparr>connError := Some HTTP_MALFORMED_FRAME_DATA,
                        pendingDataFrameBytes := 0,
                        frameState := FRAME_HEADER_TYPE,
                        totalBytesParsed := totalBytesParsed this',
                        parserPaused := True\<rparr>,
                  if callback this' then [OnError HTTP_MALFORMED_FRAME_DATA] else [])"
    if "frameState this' = FRAME_PAYLOAD_STREAMING \<and> pendingDataFrameBytes this' = 0
        \<and> connError this' = None \<and> \<not> parserPaused this'
        \<and> buf \<noteq> [] \<and> length buf < 2 ^ 64"
    using that by (intro streaming_zero_pending) auto
  show "onFramedIngress_loop h thisM cursorM bufLenM parsedTotM eventsM
          = Some (thisM\<lparr>curHeader := \<lparr>type' = DATA, length' = 0\<rparr>,
                        pendingDataFrameBytes := 0,
                        frameState := FRAME_HEADER_TYPE,
                        connError := Some HTTP_MALFORMED_FRAME_DATA,
                        totalBytesParsed := totalBytesParsed thisM + kM + kN\<rparr>,
                  parsedTotM + kM + kN,
                  if callback thisM
                  then eventsM @ [OnFrameHeader (streamId thisM) 0 0 DATA] else eventsM)"
    if "frameState thisM = FRAME_HEADER_TYPE \<and> connError thisM = None \<and> \<not> parserPaused thisM
        \<and> \<not> transportSupportsPartialReliability h \<and> checkFrameAllowed h DATA = None
        \<and> decodeQuicInteger cursorM 8 = Some ((DATA, kM), cursorN)
        \<and> decodeQuicInteger cursorN 8 = Some ((0, kN), cursorO)
        \<and> unat kM + unat kN < unat bufLenM"
    using that by (intro loop_zero_length_DATA_from_type[where cursorA = cursorN and cursorB = cursorO]) auto
  show "onFramedIngress_body hP thisP cursorP bufLenP eventsP
          = Continue (thisP\<lparr>curHeader := \<lparr>type' = DATA, length' = 0\<rparr>,
                            pendingDataFrameBytes := 0,
                            frameState := FRAME_PAYLOAD_PARTIALLY_RELIABLE_STREAMING\<rparr>,
                      restP, kP,
                      (if callback thisP
                       then eventsP @ [OnFrameHeader (streamId thisP) 0 0 DATA] else eventsP)
                      @ [OnIngressPartiallyReliableBodyStarted (totalBytesParsed thisP + kP)])"
    if "frameState thisP = FRAME_HEADER_LENGTH \<and> type' (curHeader thisP) = DATA
        \<and> transportSupportsPartialReliability hP
        \<and> decodeQuicInteger cursorP 8 = Some ((0, kP), restP)"
    using that by (intro body_zero_length_DATA_partially_reliable) auto
  show "parseData cursor header' outBuf
          = Some (None, drop (unat (length' header')) cursor,
                  Some (take (unat (length' header')) cursor))"
    and "length (take (unat (length' header')) cursor) = unat (length' header')"
    if "length' header' \<noteq> 0 \<and> unat (length' header') \<le> length cursor"
    using that parseData_nonzero(1)[of header' cursor outBuf] parseData_nonzero(2)[of header' cursor]
    by auto
qed

theorem C4_DATA_witness:
  "parseData [0x61, 0x62, 0x63] \<lparr>type' = DATA, length' = 0\<rparr> None
     = Some (Some HTTP_MALFORMED_FRAME_DATA, [0x61, 0x62, 0x63], None)
   \<and> onFramedIngress exampleHooks freshCodec [0x40, 0x00, 0x40, 0x00, 0x61]
      = Some (4, freshCodec\<lparr>connError := Some HTTP_MALFORMED_FRAME_DATA,
                              totalBytesParsed := 4, parserPaused := True\<rparr>,
              [OnFrameHeader 0 0 0 0, OnError HTTP_MALFORMED_FRAME_DATA])
   \<and> onFramedIngress exampleHooks (freshCodec\<lparr>frameState := FRAME_HEADER_LENGTH\<rparr>)
        [0x00, 0x01, 0x00]
      = Some (1, freshCodec\<lparr>connError := Some HTTP_MALFORMED_FRAME_DATA,
                              totalBytesParsed := 1, parserPaused := True\<rparr>,
              [OnFrameHeader 0 0 0 0, OnError HTTP_MALFORMED_FRAME_DATA])
   \<and> onFramedIngress exampleHooks
        (freshCodec\<lparr>frameState := FRAME_PAYLOAD_STREAMING, totalBytesParsed := 2\<rparr>) [0x01]
      = Some (0, freshCodec\<lparr>connError := Some HTTP_MALFORMED_FRAME_DATA,
                              totalBytesParsed := 2, parserPaused := True\<rparr>,
              [OnError HTTP_MALFORMED_FRAME_DATA])
   \<and> onFramedIngress_loop exampleHooks (freshCodec\<lparr>totalBytesParsed := 3\<rparr>)
        [0x00, 0x00, 0x61] 3 3 [OnFrameHeader 0 0 1 1, OnFrame (HeadersFrame [0xAA])]
      = Some (freshCodec\<lparr>connError := Some HTTP_MALFORMED_FRAME_DATA, totalBytesParsed := 5\<rparr>, 5,
              [OnFrameHeader 0 0 1 1, OnFrame (HeadersFrame [0xAA]), OnFrameHeader 0 0 0 0])
   \<and> onFramedIngress exampleHooks freshCodec [0x01, 0x01, 0xAA, 0x00, 0x00, 0x61]
      = Some (5, freshCodec\<lparr>connError := Some HTTP_MALFORMED_FRAME_DATA,
                              totalBytesParsed := 5, parserPaused := True\<rparr>,
              [OnFrameHeader 0 0 1 1, OnFrame (HeadersFrame [0xAA]), OnFrameHeader 0 0 0 0,
               OnError HTTP_MALFORMED_FRAME_DATA])
   \<and> onFramedIngress_body (exampleHooks\<lparr>transportSupportsPartialReliability := True\<rparr>)
        (freshCodec\<lparr>frameState := FRAME_HEADER_LENGTH\<rparr>) [0x00, 0x61] 2 []
      = Continue (freshCodec\<lparr>frameState := FRAME_PAYLOAD_PARTIALLY_RELIABLE_STREAMING\<rparr>,
                  [0x61], 1,
                  [OnFrameHeader 0 0 0 0, OnIngressPartiallyReliableBodyStarted 1])
   \<and> parseData [0x61, 0x62, 0x63] \<lparr>type' = DATA, length' = 2\<rparr> None
      = Some (None, [0x63], Some [0x61, 0x62])"
proof -
  have h: "\<not> transportSupportsPartialReliability exampleHooks"
    "checkFrameAllowed exampleHooks DATA = None" by (simp_all add: exampleHooks_def)
  have d: "decodeQuicInteger [0x40, 0x00, 0x40, 0x00, 0x61] 8 = Some ((DATA, 2), [0x40, 0x00, 0x61])"
    "decodeQuicInteger [0x40, 0x00, 0x61] 8 = Some ((0, 2), [0x61])"
    "decodeQuicInteger [0x00, 0x01, 0x00] 8 = Some ((0, 1), [0x01, 0x00])"
    "decodeQuicInteger [0x00, 0x00, 0x61] 8 = Some ((DATA, 1), [0x00, 0x61])"
    "decodeQuicInteger [0x00, 0x61] 8 = Some ((0, 1), [0x61])"
    by (simp_all add: decodeQuicInteger_def readBE_def DATA_def)
  have whole: "onFramedIngress exampleHooks freshCodec [0x01, 0x01, 0xAA, 0x00, 0x00, 0x61]
      = Some (5, freshCodec\<lparr>connError := Some HTTP_MALFORMED_FRAME_DATA,
                              totalBytesParsed := 5, parserPaused := True\<rparr>,
              [OnFrameHeader 0 0 1 1, OnFrame (HeadersFrame [0xAA]), OnFrameHeader 0 0 0 0,
               OnError HTTP_MALFORMED_FRAME_DATA])"
    by (simp add: onFramedIngress_def onFramedIngress_loop.simps exampleHooks_def freshCodec_def
          onFramedIngress_body_def decodeQuicInteger_def readBE_def DATA_def HEADERS_def
          checkConnectionError_def kUnframedDataFrameLen_def parseFrame_def parseHeaders_def
          parseData_def clone_def surfaced_def)
  from C4_DATA_zero_length_rejected_nonzero_cloned
         [where header = "\<lparr>type' = DATA, length' = 0\<rparr>" and cursor = "[0x61, 0x62, 0x63]"
            and outBuf = None and h = exampleHooks
            and thisT = freshCodec and bufT = "[0x40, 0x00, 0x40, 0x00, 0x61]" and kT = 2
            and cursorT = "[0x40, 0x00, 0x61]" and kU = 2 and cursorU = "[0x61]"
            and this = "freshCodec\<lparr>frameState := FRAME_HEADER_LENGTH\<rparr>"
            and bufL = "[0x00, 0x01, 0x00]" and kL = 1 and cursorL = "[0x01, 0x00]"
            and this' = "freshCodec\<lparr>frameState := FRAME_PAYLOAD_STREAMING,
                                      totalBytesParsed := 2\<rparr>"
            and buf = "[0x01]" and header' = "\<lparr>type' = DATA, length' = 2\<rparr>"
            and thisM = "freshCodec\<lparr>totalBytesParsed := 3\<rparr>"
            and cursorM = "[0x00, 0x00, 0x61]" and kM = 1 and cursorN = "[0x00, 0x61]"
            and kN = 1 and cursorO = "[0x61]" and bufLenM = 3 and parsedTotM = 3
            and eventsM = "[OnFrameHeader 0 0 1 1, OnFrame (HeadersFrame [0xAA])]"
            and thisP = "freshCodec\<lparr>frameState := FRAME_HEADER_LENGTH\<rparr>"
            and hP = "exampleHooks\<lparr>transportSupportsPartialReliability := True\<rparr>"
            and cursorP = "[0x00, 0x61]" and kP = 1 and restP = "[0x61]" and bufLenP = 2
            and eventsP = "[]"]
       h d whole
  show ?thesis by (simp add: freshCodec_def DATA_def)
qed

section \<open>Frames other than DATA are consumed whole\<close>

text \<open>
  C10: in the state \<open>FRAME_PAYLOAD\<close>, which is the state the parser enters after the
  header of any frame whose type is not DATA (known or unknown), a loop or a call that
  has fewer bytes left than the declared length consumes nothing, emits nothing and
  leaves the codec as it is, still in \<open>FRAME_PAYLOAD\<close>; an iteration that does go on to
  consume payload has at least \<open>length\<close> bytes left and counts exactly \<open>length\<close> bytes.
\<close>

theorem C10_payload_consumed_atomically:
  "(frameState this = FRAME_PAYLOAD \<and> bufLen < length' (curHeader this) \<longrightarrow>
      onFramedIngress_loop h this cursor bufLen parsedTot events = Some (this, parsedTot, events))
   \<and> (frameState this = FRAME_PAYLOAD \<and> length buf < unat (length' (curHeader this)) \<longrightarrow>
        onFramedIngress h this buf = Some (0, this, []))
   \<and> (frameState this' = FRAME_PAYLOAD
        \<and> onFramedIngress_body h this' cursor' bufLen' events'
            = Continue (thisB, cursorB, parsed, eventsB) \<longrightarrow>
        length' (curHeader this') \<le> bufLen' \<and> parsed = length' (curHeader this')
        \<and> frameState thisB = FRAME_HEADER_TYPE)
   \<and> (frameState thisC = FRAME_HEADER_LENGTH \<and> type' (curHeader thisC) \<noteq> DATA
        \<and> onFramedIngress_body h thisC cursorC bufLenC eventsC
            = Continue (thisD, cursorD, parsedD, eventsD) \<longrightarrow>
        frameState thisD = FRAME_PAYLOAD)"
proof (intro conjI impI)
  show "onFramedIngress_loop h this cursor bufLen parsedTot events = Some (this, parsedTot, events)"
    if "frameState this = FRAME_PAYLOAD \<and> bufLen < length' (curHeader this)"
    using that by (intro loop_payload_incomplete) auto
  show "onFramedIngress h this buf = Some (0, this, [])"
    if "frameState this = FRAME_PAYLOAD \<and> length buf < unat (length' (curHeader this))"
    using that by (intro onFramedIngress_payload_incomplete) auto
  show "length' (curHeader this') \<le> bufLen'" and "parsed = length' (curHeader this')"
    and "frameState thisB = FRAME_HEADER_TYPE"
    if "frameState this' = FRAME_PAYLOAD
        \<and> onFramedIngress_body h this' cursor' bufLen' events'
            = Continue (thisB, cursorB, parsed, eventsB)"
    using that body_payload_Continue[of this' h cursor' bufLen' events' thisB cursorB parsed eventsB]
    by auto
  show "frameState thisD = FRAME_PAYLOAD"
    if "frameState thisC = FRAME_HEADER_LENGTH \<and> type' (curHeader thisC) \<noteq> DATA
        \<and> onFramedIngress_body h thisC cursorC bufLenC eventsC
            = Continue (thisD, cursorD, parsedD, eventsD)"
    using that
      body_header_length_nonDATA[of thisC h cursorC bufLenC eventsC thisD cursorD parsedD eventsD]
    by auto
qed

theorem C10_payload_atomic_witness:
  "onFramedIngress_loop exampleHooks
      (freshCodec\<lparr>frameState := FRAME_PAYLOAD, curHeader := \<lparr>type' = SETTINGS, length' = 4\<rparr>\<rparr>)
      [0x01, 0x40] 2 0 []
     = Some (freshCodec\<lparr>frameState := FRAME_PAYLOAD,
                        curHeader := \<lparr>type' = SETTINGS, length' = 4\<rparr>\<rparr>, 0, [])
   \<and> onFramedIngress exampleHooks
        (freshCodec\<lparr>frameState := FRAME_PAYLOAD, curHeader := \<lparr>type' = SETTINGS, length' = 4\<rparr>\<rparr>)
        [0x01, 0x40]
      = Some (0, freshCodec\<lparr>frameState := FRAME_PAYLOAD,
                            curHeader := \<lparr>type' = SETTINGS, length' = 4\<rparr>\<rparr>, [])
   \<and> onFramedIngress_body exampleHooks
        (freshCodec\<lparr>frameState := FRAME_PAYLOAD, curHeader := \<lparr>type' = 0x21, length' = 2\<rparr>\<rparr>)
        [0xAA, 0xBB, 0x01] 3 []
      = Continue (freshCodec\<lparr>curHeader := \<lparr>type' = 0x21, length' = 2\<rparr>\<rparr>, [0x01], 2, [])
   \<and> onFramedIngress_body exampleHooks
        (freshCodec\<lparr>frameState := FRAME_HEADER_LENGTH,
                    curHeader := \<lparr>type' = 0x21, length' = 0\<rparr>\<rparr>)
        [0x02, 0xAA, 0xBB] 3 []
      = Continue (freshCodec\<lparr>frameState := FRAME_PAYLOAD,
                            curHeader := \<lparr>type' = 0x21, length' = 2\<rparr>,
                            pendingDataFrameBytes := 2\<rparr>,
                  [0xAA, 0xBB], 1, [OnFrameHeader 0 0 2 0x21])"
proof -
  let ?s = "freshCodec\<lparr>frameState := FRAME_PAYLOAD,
                        curHeader := \<lparr>type' = SETTINGS, length' = 4\<rparr>\<rparr>"
  let ?u = "freshCodec\<lparr>frameState := FRAME_PAYLOAD, curHeader := \<lparr>type' = 0x21, length' = 2\<rparr>\<rparr>"
  let ?l = "freshCodec\<lparr>frameState := FRAME_HEADER_LENGTH,
                        curHeader := \<lparr>type' = 0x21, length' = 0\<rparr>\<rparr>"
  let ?p = "freshCodec\<lparr>frameState := FRAME_PAYLOAD, curHeader := \<lparr>type' = 0x21, length' = 2\<rparr>,
                        pendingDataFrameBytes := 2\<rparr>"
  have b1: "onFramedIngress_body exampleHooks ?u [0xAA, 0xBB, 0x01] 3 []
              = Continue (freshCodec\<lparr>curHeader := \<lparr>type' = 0x21, length' = 2\<rparr>\<rparr>, [0x01], 2, [])"
    by (simp add: onFramedIngress_body_def freshCodec_def parseFrame_def skip_def DATA_def
          HEADERS_def PRIORITY_def CANCEL_PUSH_def SETTINGS_def PUSH_PROMISE_def GOAWAY_def
          MAX_PUSH_ID_def)
  have b2: "onFramedIngress_body exampleHooks ?l [0x02, 0xAA, 0xBB] 3 []
              = Continue (?p, [0xAA, 0xBB], 1, [OnFrameHeader 0 0 2 0x21])"
    by (simp add: onFramedIngress_body_def freshCodec_def decodeQuicInteger_def readBE_def
          DATA_def)
  have s: "frameState ?s = FRAME_PAYLOAD" "(2::u64) < length' (curHeader ?s)"
    "length [0x01::byte, 0x40] < unat (length' (curHeader ?s))"
    "frameState ?u = FRAME_PAYLOAD" "frameState ?l = FRAME_HEADER_LENGTH"
    "type' (curHeader ?l) \<noteq> DATA"
    by (simp_all add: DATA_def)
  from C10_payload_consumed_atomically
         [where this = ?s and bufLen = 2 and h = exampleHooks and cursor = "[0x01, 0x40]"
            and parsedTot = 0 and events = "[]" and buf = "[0x01, 0x40]"
            and this' = ?u and cursor' = "[0xAA, 0xBB, 0x01]" and bufLen' = 3 and events' = "[]"
            and thisB = "freshCodec\<lparr>curHeader := \<lparr>type' = 0x21, length' = 2\<rparr>\<rparr>"
            and cursorB = "[0x01]" and parsed = 2 and eventsB = "[]"
            and thisC = ?l and cursorC = "[0x02, 0xAA, 0xBB]" and bufLenC = 3
            and eventsC = "[]" and thisD = ?p and cursorD = "[0xAA, 0xBB]" and parsedD = 1
            and eventsD = "[OnFrameHeader 0 0 2 0x21]"]
       s b1 b2
  show ?thesis by simp
qed

section \<open>PRIORITY payloads\<close>



section \<open>SETTINGS payloads\<close>

text \<open>
  C6: with the declared length available in the cursor, \<open>parseSettings\<close> reads the
  payload (the first \<open>length\<close> bytes) as (id, value) varint pairs until it is exhausted.
  When every id and value can be decoded from what remains it succeeds, has consumed
  exactly the payload, and has appended to \<open>settings\<close> the pairs whose id is
  \<open>HEADER_TABLE_SIZE\<close>, \<open>NUM_PLACEHOLDERS\<close>, \<open>MAX_HEADER_LIST_SIZE\<close> or
  \<open>QPACK_BLOCKED_STREAMS\<close>, in wire order, and no other pair; when one cannot, it returns
  \<open>HTTP_MALFORMED_FRAME_SETTINGS\<close>.
\<close>

theorem C6_parseSettings_known_pairs_in_wire_order:
  assumes "unat (length' header) \<le> length cursor"
  shows "case settingsPayload (take (unat (length' header)) cursor) of
           None \<Rightarrow> fst (parseSettings cursor header settings)
                     = Some HTTP_MALFORMED_FRAME_SETTINGS
         | Some pairs \<Rightarrow>
             parseSettings cursor header settings
               = (None, drop (unat (length' header)) cursor,
                  settings @ filter (\<lambda>pr. isKnownSetting (fst pr)) pairs)"
proof -
  let ?p = "take (unat (length' header)) cursor" and ?r = "drop (unat (length' header)) cursor"
  note s = payload_split[OF assms]
  have "parseSettings_loop cursor (length' header) settings
          = parseSettings_loop (?p @ ?r) (of_nat (length ?p)) settings"
    using s(3) by (simp only: append_take_drop_id)
  then have c: "parseSettings cursor header settings
          = parseSettings_loop (?p @ ?r) (of_nat (length ?p)) settings"
    by (simp only: parseSettings_def)
  show ?thesis unfolding c by (rule parseSettings_loop_split[OF s(2)])
qed

theorem C6_parseSettings_witness:
  "unat (length' \<lparr>type' = SETTINGS, length' = 8\<rparr>)
     \<le> length [0x01, 0x50, 0x00, 0x21, 0x07, 0x07, 0x40, 0x64, 0xEE :: byte]
   \<and> settingsPayload [0x01, 0x50, 0x00, 0x21, 0x07, 0x07, 0x40, 0x64]
       = Some [(HEADER_TABLE_SIZE, 4096), (0x21, 7), (QPACK_BLOCKED_STREAMS, 100)]
   \<and> parseSettings [0x01, 0x50, 0x00, 0x21, 0x07, 0x07, 0x40, 0x64, 0xEE]
         \<lparr>type' = SETTINGS, length' = 8\<rparr> []
       = (None, [0xEE], [(HEADER_TABLE_SIZE, 4096), (QPACK_BLOCKED_STREAMS, 100)])
   \<and> settingsPayload [0x01, 0x50, 0x00, 0x21] = None
   \<and> fst (parseSettings [0x01, 0x50, 0x00, 0x21, 0x07, 0x07, 0x40, 0x64, 0xEE]
              \<lparr>type' = SETTINGS, length' = 4\<rparr> []) = Some HTTP_MALFORMED_FRAME_SETTINGS"
proof -
  have p: "settingsPayload [0x01, 0x50, 0x00, 0x21, 0x07, 0x07, 0x40, 0x64]
             = Some [(HEADER_TABLE_SIZE, 4096), (0x21, 7), (QPACK_BLOCKED_STREAMS, 100)]"
    by (simp add: settingsPayload.simps decodeQuicInteger_def readBE_def
          HEADER_TABLE_SIZE_def QPACK_BLOCKED_STREAMS_def)
  have q: "settingsPayload [0x01, 0x50, 0x00, 0x21] = None"
    by (simp add: settingsPayload.simps decodeQuicInteger_def readBE_def)
  have k: "filter (\<lambda>pr. isKnownSetting (fst pr))
             [(HEADER_TABLE_SIZE, 4096), (0x21, 7), (QPACK_BLOCKED_STREAMS, 100 :: u64)]
           = [(HEADER_TABLE_SIZE, 4096), (QPACK_BLOCKED_STREAMS, 100)]"
    by (simp add: isKnownSetting_def HEADER_TABLE_SIZE_def NUM_PLACEHOLDERS_def
          MAX_HEADER_LIST_SIZE_def QPACK_BLOCKED_STREAMS_def)
  have l: "unat (length' \<lparr>type' = SETTINGS, length' = 8\<rparr>)
             \<le> length [0x01, 0x50, 0x00, 0x21, 0x07, 0x07, 0x40, 0x64, 0xEE :: byte]"
    "unat (length' \<lparr>type' = SETTINGS, length' = 4\<rparr>)
             \<le> length [0x01, 0x50, 0x00, 0x21, 0x07, 0x07, 0x40, 0x64, 0xEE :: byte]"
    by simp_all
  from C6_parseSettings_known_pairs_in_wire_order[OF l(1), of "[]"]
       C6_parseSettings_known_pairs_in_wire_order[OF l(2), of "[]"]
       p q k l
  show ?thesis by simp
qed

section \<open>Round trip\<close>

text \<open>
  C2 as stated (parsing the bytes written for a valid frame yields a frame equal to it)
  fails for a PRIORITY frame whose dependency type is the tree root: its
  \<open>elementDependencyId\<close> is not written, so the frame with \<open>elementDependencyId = 9\<close> and the
  frame with \<open>elementDependencyId = 0\<close> are written as the same five bytes, and the parser
  surfaces the second one.  It also fails for a frame with an empty payload at the end of
  the input: the two bytes of a HEADERS frame with an empty block are consumed, the
  frame header is reported, and no frame is surfaced.
\<close>

theorem C2_omitted_dependency_id_is_not_parsed_back:
  "validFrame (PriorityFrame
          \<lparr>prioritizedType = REQUEST_STREAM, dependencyType = TREE_ROOT, exclusive = False,
           prioritizedElementId = 5, elementDependencyId = 9, weight = 0x10\<rparr>)
   \<and> writeFrame [] (PriorityFrame
          \<lparr>prioritizedType = REQUEST_STREAM, dependencyType = TREE_ROOT, exclusive = False,
           prioritizedElementId = 5, elementDependencyId = 9, weight = 0x10\<rparr>)
       = (Inr 5, [0x02, 0x03, 0x30, 0x05, 0x10])
   \<and> writeFrame [] (PriorityFrame
          \<lparr>prioritizedType = REQUEST_STREAM, dependencyType = TREE_ROOT, exclusive = False,
           prioritizedElementId = 5, elementDependencyId = 0, weight = 0x10\<rparr>)
       = (Inr 5, [0x02, 0x03, 0x30, 0x05, 0x10])
   \<and> onFramedIngress exampleHooks freshCodec [0x02, 0x03, 0x30, 0x05, 0x10]
       = Some (5, freshCodec\<lparr>curHeader := \<lparr>type' = 2, length' = 3\<rparr>,
                              pendingDataFrameBytes := 3, totalBytesParsed := 5\<rparr>,
               [OnFrameHeader 0 0 3 2,
                OnFrame (PriorityFrame
          \<lparr>prioritizedType = REQUEST_STREAM, dependencyType = TREE_ROOT, exclusive = False,
           prioritizedElementId = 5, elementDependencyId = 0, weight = 0x10\<rparr>)])
   \<and> PriorityFrame
          \<lparr>prioritizedType = REQUEST_STREAM, dependencyType = TREE_ROOT, exclusive = False,
           prioritizedElementId = 5, elementDependencyId = 0, weight = 0x10\<rparr>
       \<noteq> PriorityFrame
          \<lparr>prioritizedType = REQUEST_STREAM, dependencyType = TREE_ROOT, exclusive = False,
           prioritizedElementId = 5, elementDependencyId = 9, weight = 0x10\<rparr>
   \<and> validFrame (HeadersFrame [])
   \<and> writeFrame [] (HeadersFrame []) = (Inr 2, [0x01, 0x00])
   \<and> onFramedIngress exampleHooks freshCodec [0x01, 0x00]
       = Some (2, freshCodec\<lparr>frameState := FRAME_PAYLOAD,
                              curHeader := \<lparr>type' = 1, length' = 0\<rparr>,
                              totalBytesParsed := 2\<rparr>,
               [OnFrameHeader 0 0 0 1])"
proof -
  have w: "writeFrame [] (PriorityFrame
          \<lparr>prioritizedType = REQUEST_STREAM, dependencyType = TREE_ROOT, exclusive = False,
           prioritizedElementId = 5, elementDependencyId = 9, weight = 0x10\<rparr>)
       = (Inr 5, [0x02, 0x03, 0x30, 0x05, 0x10])"
    "writeFrame [] (PriorityFrame
          \<lparr>prioritizedType = REQUEST_STREAM, dependencyType = TREE_ROOT, exclusive = False,
           prioritizedElementId = 5, elementDependencyId = 0, weight = 0x10\<rparr>)
       = (Inr 5, [0x02, 0x03, 0x30, 0x05, 0x10])"
    "writeFrame [] (HeadersFrame []) = (Inr 2, [0x01, 0x00])"
    by (simp_all add: writeFrame_def writePriority_def writeHeaders_def writeSimpleFrame_def
          computeChainDataLength_def encodePriorityFlags_def getQuicIntegerSize_def
          writeFrameHeader_def encodeQuicInteger_def PRIORITY_def HEADERS_def kOneByteLimit_def
          PRIORITIZED_TYPE_POS_def DEPENDENCY_TYPE_POS_def PRIORITY_EXCLUSIVE_MASK_def)
  have p: "onFramedIngress exampleHooks freshCodec [0x02, 0x03, 0x30, 0x05, 0x10]
       = Some (5, freshCodec\<lparr>curHeader := \<lparr>type' = 2, length' = 3\<rparr>,
                              pendingDataFrameBytes := 3, totalBytesParsed := 5\<rparr>,
               [OnFrameHeader 0 0 3 2,
                OnFrame (PriorityFrame
          \<lparr>prioritizedType = REQUEST_STREAM, dependencyType = TREE_ROOT, exclusive = False,
           prioritizedElementId = 5, elementDependencyId = 0, weight = 0x10\<rparr>)])"
    by (simp add: onFramedIngress_def onFramedIngress_loop.simps exampleHooks_def freshCodec_def
          onFramedIngress_body_def decodeQuicInteger_def readBE_def DATA_def HEADERS_def
          PRIORITY_def checkConnectionError_def parseFrame_def parsePriority_def
          decodePriorityFlags_def PRIORITIZED_TYPE_POS_def DEPENDENCY_TYPE_POS_def
          PRIORITY_EMPTY_POS_def PRIORITY_EXCLUSIVE_MASK_def PriorityElementType_cast_def
          surfaced_def)
  have e: "onFramedIngress exampleHooks freshCodec [0x01, 0x00]
       = Some (2, freshCodec\<lparr>frameState := FRAME_PAYLOAD,
                              curHeader := \<lparr>type' = 1, length' = 0\<rparr>,
                              totalBytesParsed := 2\<rparr>,
               [OnFrameHeader 0 0 0 1])"
    by (simp add: onFramedIngress_def onFramedIngress_loop.simps exampleHooks_def freshCodec_def
          onFramedIngress_body_def decodeQuicInteger_def readBE_def DATA_def
          checkConnectionError_def)
  show ?thesis using w p e by (simp add: validFrame_def)
qed

text \<open>
  C2, amended: for every valid frame whose varints are encodable, the write operation
  appends exactly the bytes of the frame's layout (type varint, length varint, payload)
  and returns their number.  A parser that stands at a frame boundary with no error,
  not paused, on a stream where the frame's type is allowed, and is given these bytes,
  consumes exactly them, reports the frame header and surfaces one frame: in a call
  that gets the bytes alone when the payload is not empty, and in the loop of any call
  in which the payload is not empty or further input follows.  The frame surfaced is the
  frame written, except that the \<open>elementDependencyId\<close> of a PRIORITY frame whose
  dependency type is the tree root is not on the wire and is the one the receiver's
  structure had.
\<close>

theorem C2_written_frame_is_parsed_back:
  assumes "validFrame f" and "fitsVarints f"
    and "frameState this = FRAME_HEADER_TYPE"
    and "connError this = None" and "\<not> parserPaused this"
    and "checkFrameAllowed h (frameType f) = None"
  shows "writeFrame q f = (Inr (of_nat (length (frameBytes f))), q @ frameBytes f)
   \<and> (payloadBytes f \<noteq> [] \<longrightarrow>
        onFramedIngress h this (frameBytes f)
          = Some (of_nat (length (frameBytes f)),
                  this\<lparr>curHeader := \<lparr>type' = frameType f,
                                    length' = of_nat (length (payloadBytes f))\<rparr>,
                   pendingDataFrameBytes :=
                     (if frameType f = DATA then 0 else of_nat (length (payloadBytes f))),
                   totalBytesParsed := totalBytesParsed this + of_nat (length (frameBytes f))\<rparr>,
                  (if callback this
                   then [OnFrameHeader (streamId this) 0
                           (of_nat (length (payloadBytes f))) (frameType f)]
                   else []) @ [OnFrame (received (outPriority0 h) f)]))
   \<and> ((payloadBytes f \<noteq> [] \<or> rest \<noteq> []) \<and> length rest < 2 ^ 63 \<longrightarrow>
        onFramedIngress_loop h this (frameBytes f @ rest)
            (of_nat (length (frameBytes f @ rest))) parsedTot events
          = onFramedIngress_loop h
              (this\<lparr>curHeader := \<lparr>type' = frameType f,
                                    length' = of_nat (length (payloadBytes f))\<rparr>,
                   pendingDataFrameBytes :=
                     (if frameType f = DATA then 0 else of_nat (length (payloadBytes f))),
                   totalBytesParsed := totalBytesParsed this + of_nat (length (frameBytes f))\<rparr>)
              rest (of_nat (length rest)) (parsedTot + of_nat (length (frameBytes f)))
              ((if callback this
                then events @ [OnFrameHeader (streamId this) 0
                                 (of_nat (length (payloadBytes f))) (frameType f)]
                else events) @ [OnFrame (received (outPriority0 h) f)]))
   \<and> ((case f of PriorityFrame p \<Rightarrow> dependencyType p \<noteq> TREE_ROOT | _ \<Rightarrow> True) \<longrightarrow>
        received (outPriority0 h) f = f)"
proof (intro conjI impI)
  show "writeFrame q f = (Inr (of_nat (length (frameBytes f))), q @ frameBytes f)"
    by (rule frame_parsed(1)[OF assms])
  show "onFramedIngress h this (frameBytes f)
          = Some (of_nat (length (frameBytes f)),
                  this\<lparr>curHeader := \<lparr>type' = frameType f,
                                    length' = of_nat (length (payloadBytes f))\<rparr>,
                   pendingDataFrameBytes :=
                     (if frameType f = DATA then 0 else of_nat (length (payloadBytes f))),
                   totalBytesParsed := totalBytesParsed this + of_nat (length (frameBytes f))\<rparr>,
                  (if callback this
                   then [OnFrameHeader (streamId this) 0
                           (of_nat (length (payloadBytes f))) (frameType f)]
                   else []) @ [OnFrame (received (outPriority0 h) f)])"
    if "payloadBytes f \<noteq> []"
    by (rule frame_parsed_call[OF assms that])
  show "onFramedIngress_loop h this (frameBytes f @ rest)
            (of_nat (length (frameBytes f @ rest))) parsedTot events
          = onFramedIngress_loop h
              (this\<lparr>curHeader := \<lparr>type' = frameType f,
                                    length' = of_nat (length (payloadBytes f))\<rparr>,
                   pendingDataFrameBytes :=
                     (if frameType f = DATA then 0 else of_nat (length (payloadBytes f))),
                   totalBytesParsed := totalBytesParsed this + of_nat (length (frameBytes f))\<rparr>)
              rest (of_nat (length rest)) (parsedTot + of_nat (length (frameBytes f)))
              ((if callback this
                then events @ [OnFrameHeader (streamId this) 0
                                 (of_nat (length (payloadBytes f))) (frameType f)]
                else events) @ [OnFrame (received (outPriority0 h) f)])"
    if "(payloadBytes f \<noteq> [] \<or> rest \<noteq> []) \<and> length rest < 2 ^ 63"
    using that by (intro frame_parsed(2)[OF assms]) auto
  show "received (outPriority0 h) f = f"
    if "case f of PriorityFrame p \<Rightarrow> dependencyType p \<noteq> TREE_ROOT | _ \<Rightarrow> True"
    using that by (rule received_same)
qed

theorem C2_round_trip_witness:
  "validFrame (DataFrame [0x61, 0x62]) \<and> fitsVarints (DataFrame [0x61, 0x62])
   \<and> writeFrame [] (DataFrame [0x61, 0x62]) = (Inr 4, [0x00, 0x02, 0x61, 0x62])
   \<and> onFramedIngress exampleHooks freshCodec [0x00, 0x02, 0x61, 0x62]
       = Some (4, freshCodec\<lparr>curHeader := \<lparr>type' = 0, length' = 2\<rparr>, totalBytesParsed := 4\<rparr>,
               [OnFrameHeader 0 0 2 0, OnFrame (DataFrame [0x61, 0x62])])
   \<and> validFrame (SettingsFrame [(HEADER_TABLE_SIZE, 4096), (QPACK_BLOCKED_STREAMS, 100)])
   \<and> fitsVarints (SettingsFrame [(HEADER_TABLE_SIZE, 4096), (QPACK_BLOCKED_STREAMS, 100)])
   \<and> writeFrame [] (SettingsFrame [(HEADER_TABLE_SIZE, 4096), (QPACK_BLOCKED_STREAMS, 100)])
       = (Inr 8, [0x04, 0x06, 0x01, 0x50, 0x00, 0x07, 0x40, 0x64])
   \<and> onFramedIngress exampleHooks freshCodec [0x04, 0x06, 0x01, 0x50, 0x00, 0x07, 0x40, 0x64]
       = Some (8, freshCodec\<lparr>curHeader := \<lparr>type' = 4, length' = 6\<rparr>,
                              pendingDataFrameBytes := 6, totalBytesParsed := 8\<rparr>,
               [OnFrameHeader 0 0 6 4,
                OnFrame (SettingsFrame [(HEADER_TABLE_SIZE, 4096), (QPACK_BLOCKED_STREAMS, 100)])])
   \<and> validFrame (PriorityFrame
           \<lparr>prioritizedType = REQUEST_STREAM, dependencyType = PLACEHOLDER, exclusive = True,
            prioritizedElementId = 5, elementDependencyId = 9, weight = 0x10\<rparr>)
   \<and> fitsVarints (PriorityFrame
           \<lparr>prioritizedType = REQUEST_STREAM, dependencyType = PLACEHOLDER, exclusive = True,
            prioritizedElementId = 5, elementDependencyId = 9, weight = 0x10\<rparr>)
   \<and> writeFrame [] (PriorityFrame
           \<lparr>prioritizedType = REQUEST_STREAM, dependencyType = PLACEHOLDER, exclusive = True,
            prioritizedElementId = 5, elementDependencyId = 9, weight = 0x10\<rparr>)
       = (Inr 6, [0x02, 0x04, 0x21, 0x05, 0x09, 0x10])
   \<and> onFramedIngress exampleHooks freshCodec [0x02, 0x04, 0x21, 0x05, 0x09, 0x10]
       = Some (6, freshCodec\<lparr>curHeader := \<lparr>type' = 2, length' = 4\<rparr>,
                              pendingDataFrameBytes := 4, totalBytesParsed := 6\<rparr>,
               [OnFrameHeader 0 0 4 2,
                OnFrame (PriorityFrame
           \<lparr>prioritizedType = REQUEST_STREAM, dependencyType = PLACEHOLDER, exclusive = True,
            prioritizedElementId = 5, elementDependencyId = 9, weight = 0x10\<rparr>)])
   \<and> validFrame (HeadersFrame []) \<and> fitsVarints (HeadersFrame [])
   \<and> onFramedIngress_loop exampleHooks freshCodec [0x01, 0x00, 0x04, 0x00] 4 0 []
       = onFramedIngress_loop exampleHooks
           (freshCodec\<lparr>curHeader := \<lparr>type' = 1, length' = 0\<rparr>, totalBytesParsed := 2\<rparr>)
           [0x04, 0x00] 2 2 [OnFrameHeader 0 0 0 1, OnFrame (HeadersFrame [])]"
proof -
  let ?D = "DataFrame [0x61, 0x62]"
  let ?S = "SettingsFrame [(HEADER_TABLE_SIZE, 4096), (QPACK_BLOCKED_STREAMS, 100)]"
  let ?H = "HeadersFrame []"
  let ?P = "PriorityFrame
           \<lparr>prioritizedType = REQUEST_STREAM, dependencyType = PLACEHOLDER, exclusive = True,
            prioritizedElementId = 5, elementDependencyId = 9, weight = 0x10\<rparr>"
  have v: "validFrame ?D" "validFrame ?S" "validFrame ?H" "validFrame ?P"
    by (simp_all add: validFrame_def isKnownSetting_def)
  have p: "payloadBytes ?D = [0x61, 0x62]"
    "payloadBytes ?S = [0x01, 0x50, 0x00, 0x07, 0x40, 0x64]" "payloadBytes ?H = []"
    "payloadBytes ?P = [0x21, 0x05, 0x09, 0x10]"
    by (simp_all add: payloadBytes_def varintBytes_def encodeQuicInteger_def
          priorityWire_def encodePriorityFlags_def PRIORITIZED_TYPE_POS_def
          DEPENDENCY_TYPE_POS_def PRIORITY_EXCLUSIVE_MASK_def
          HEADER_TABLE_SIZE_def QPACK_BLOCKED_STREAMS_def kOneByteLimit_def kTwoByteLimit_def
          writeBE_numeral)
  have t: "frameType ?D = 0" "frameType ?S = 4" "frameType ?H = 1" "frameType ?P = 2"
    by (simp_all add: frameType_def DATA_def SETTINGS_def HEADERS_def PRIORITY_def)
  have b: "frameBytes ?D = [0x00, 0x02, 0x61, 0x62]"
    "frameBytes ?S = [0x04, 0x06, 0x01, 0x50, 0x00, 0x07, 0x40, 0x64]"
    "frameBytes ?H = [0x01, 0x00]"
    "frameBytes ?P = [0x02, 0x04, 0x21, 0x05, 0x09, 0x10]"
    by (simp_all add: frameBytes_def p t varintBytes_def encodeQuicInteger_def kOneByteLimit_def)
  have f: "fitsVarints ?D" "fitsVarints ?S" "fitsVarints ?H" "fitsVarints ?P"
    unfolding fitsVarints_def p
    by (simp_all add: HEADER_TABLE_SIZE_def QPACK_BLOCKED_STREAMS_def kEightByteLimit_def)
  have c: "frameState freshCodec = FRAME_HEADER_TYPE" "connError freshCodec = None"
    "\<not> parserPaused freshCodec" "callback freshCodec" "streamId freshCodec = 0"
    "totalBytesParsed freshCodec = 0"
    by (simp_all add: freshCodec_def)
  have a: "checkFrameAllowed exampleHooks ty = None" for ty by (simp add: exampleHooks_def)
  have r: "received out0 ?D = ?D" "received out0 ?S = ?S" "received out0 ?H = ?H"
    "received out0 ?P = ?P" for out0
    by (simp_all add: received_def)
  from C2_written_frame_is_parsed_back[OF v(1) f(1) c(1,2,3) a, where q = "[]" and rest = "[]"
         and parsedTot = 0 and events = "[]"]
       C2_written_frame_is_parsed_back[OF v(2) f(2) c(1,2,3) a, where q = "[]" and rest = "[]"
         and parsedTot = 0 and events = "[]"]
       C2_written_frame_is_parsed_back[OF v(3) f(3) c(1,2,3) a, where q = "[]"
         and rest = "[0x04, 0x00]" and parsedTot = 0 and events = "[]"]
       C2_written_frame_is_parsed_back[OF v(4) f(4) c(1,2,3) a, where q = "[]" and rest = "[]"
         and parsedTot = 0 and events = "[]"]
       v f
  show ?thesis by (simp add: p t b c r DATA_def freshCodec_def)
qed
section \<open>Content-Length headers\<close>

text \<open>
  C8 as stated (in a sequence with several Content-Length headers, equal values are
  accepted with no error and a value that differs from the recorded one makes \<open>onHeader\<close>
  return false with "Multiple content-length headers") fails in two situations.  After
  \<open>content-length: 42\<close> and \<open>content-length: 7\<close> have set the error, \<open>content-length: 8\<close>
  differs from the recorded 42 and \<open>onHeader\<close> returns true, since every header is ignored
  once an error is recorded.  And \<open>content-length: 42\<close> followed by a value made of \<open>42\<close>
  and a line feed, which parses to 42 as well, is rejected with "Bad header value".
\<close>

theorem C8_later_content_length_ignored_or_bad_value:
  "contentLengthOf exampleEnv ''8'' \<noteq> 42
   \<and> onHeader_calls exampleEnv freshInfo
        [(contentLengthName, ''42''), (contentLengthName, ''7''), (contentLengthName, ''8'')]
       = ([True, False, True],
          freshInfo\<lparr>msg := \<lparr>statusCode = 0, statusMessage = [],
                              headers = [AddByCode HTTP_HEADER_CONTENT_LENGTH ''42'']\<rparr>,
                     contentLength := Some 42, regularHeaderSeen := True,
                     parsingError := ''Multiple content-length headers''\<rparr>)
   \<and> contentLengthOf spaceEnv ''42'' = 42
   \<and> contentLengthOf spaceEnv [CHR ''4'', CHR ''2'', CHR 0x0A] = 42
   \<and> onHeader_calls spaceEnv freshInfo
        [(contentLengthName, ''42''), (contentLengthName, [CHR ''4'', CHR ''2'', CHR 0x0A])]
       = ([True, False],
          freshInfo\<lparr>msg := \<lparr>statusCode = 0, statusMessage = [],
                              headers = [AddByCode HTTP_HEADER_CONTENT_LENGTH ''42'']\<rparr>,
                     contentLength := Some 42, regularHeaderSeen := True,
                     parsingError := ''Bad header value: name=content-length value=''
                                       @ [CHR ''4'', CHR ''2'', CHR 0x0A]\<rparr>)"
proof -
  have n: "\<not> startsWith (get contentLengthName) (CHR '':'')"
    "getHeaderCode contentLengthName = HTTP_HEADER_CONTENT_LENGTH"
    "get contentLengthName = ''content-length''"
    by (simp_all add: contentLengthName_def startsWith_def)
  have t: "contentLengthOf exampleEnv ''42'' = 42" "contentLengthOf exampleEnv ''7'' = 7"
    "contentLengthOf exampleEnv ''8'' = 8"
    by (simp_all add: contentLengthOf_def exampleEnv_def decimal_def digitValue_def)
  have ts: "contentLengthOf spaceEnv ''42'' = 42"
    "contentLengthOf spaceEnv [CHR ''4'', CHR ''2'', CHR 0x0A] = 42"
    by (simp_all add: contentLengthOf_def spaceEnv_def exampleEnv_def trim_def isSpace_def
          decimal_def digitValue_def)
  have v: "validateHeaderValue exampleEnv ''42''" "validateHeaderValue spaceEnv ''42''"
    "\<not> validateHeaderValue spaceEnv [CHR ''4'', CHR ''2'', CHR 0x0A]"
    by (simp_all add: spaceEnv_def exampleEnv_def)
  let ?s = "freshInfo\<lparr>regularHeaderSeen := True, contentLength := Some 42,
                      msg := (msg freshInfo)\<lparr>headers := headers (msg freshInfo)
                                @ [AddByCode HTTP_HEADER_CONTENT_LENGTH ''42'']\<rparr>\<rparr>"
  let ?e = "?s\<lparr>regularHeaderSeen := True, parsingError := ''Multiple content-length headers''\<rparr>"
  have s1: "onHeader exampleEnv freshInfo contentLengthName ''42'' = (True, ?s)"
    using onHeader_content_length[OF _ _ n(1,2), of freshInfo exampleEnv "''42''"] t v
    by (simp add: freshInfo_def)
  have s2: "onHeader exampleEnv ?s contentLengthName ''7'' = (False, ?e)"
    using onHeader_content_length[OF _ _ n(1,2), of ?s exampleEnv "''7''"] t v
    by (simp add: freshInfo_def)
  have s3: "onHeader exampleEnv ?e contentLengthName ''8'' = (True, ?e)"
    by (rule onHeader_ignored) simp
  have r1: "onHeader spaceEnv freshInfo contentLengthName ''42'' = (True, ?s)"
    using onHeader_content_length[OF _ _ n(1,2), of freshInfo spaceEnv "''42''"] ts v
    by (simp add: freshInfo_def)
  have r2: "onHeader spaceEnv ?s contentLengthName [CHR ''4'', CHR ''2'', CHR 0x0A]
              = (False, ?s\<lparr>regularHeaderSeen := True, contentLength := Some 42,
                            parsingError := ''Bad header value: name='' @ get contentLengthName
                              @ '' value='' @ [CHR ''4'', CHR ''2'', CHR 0x0A]\<rparr>)"
    using onHeader_content_length[OF _ _ n(1,2), of ?s spaceEnv
            "[CHR ''4'', CHR ''2'', CHR 0x0A]"] ts v
    by (simp add: freshInfo_def)
  have a: "onHeader_calls exampleEnv freshInfo
        [(contentLengthName, ''42''), (contentLengthName, ''7''), (contentLengthName, ''8'')]
       = ([True, False, True],
          freshInfo\<lparr>msg := \<lparr>statusCode = 0, statusMessage = [],
                              headers = [AddByCode HTTP_HEADER_CONTENT_LENGTH ''42'']\<rparr>,
                     contentLength := Some 42, regularHeaderSeen := True,
                     parsingError := ''Multiple content-length headers''\<rparr>)"
    by (simp only: onHeader_calls.simps s1 s2 s3 prod.case) (simp add: freshInfo_def)
  have b: "onHeader_calls spaceEnv freshInfo
        [(contentLengthName, ''42''), (contentLengthName, [CHR ''4'', CHR ''2'', CHR 0x0A])]
       = ([True, False],
          freshInfo\<lparr>msg := \<lparr>statusCode = 0, statusMessage = [],
                              headers = [AddByCode HTTP_HEADER_CONTENT_LENGTH ''42'']\<rparr>,
                     contentLength := Some 42, regularHeaderSeen := True,
                     parsingError := ''Bad header value: name=content-length value=''
                                       @ [CHR ''4'', CHR ''2'', CHR 0x0A]\<rparr>)"
    by (simp only: onHeader_calls.simps r1 r2 prod.case) (simp add: freshInfo_def n(3))
  show ?thesis using t(3) ts a b by simp
qed

text \<open>
  C8, amended: while no error is recorded (\<open>decodeError\<close> is \<open>NONE\<close> and \<open>parsingError\<close> is
  empty), a Content-Length whose parsed value differs from the content length already
  recorded makes \<open>onHeader\<close> return false and set \<open>parsingError\<close> to "Multiple
  content-length headers"; a run of Content-Length headers that all parse to the same
  value and whose values pass the header-value validation is accepted: every call
  returns true, no error is set, the common value is recorded and every field is added
  to the message; and in any sequence of headers, of any kind, in which all
  Content-Length headers parse to the same value, no call sets "Multiple content-length
  headers".
\<close>

theorem C8_content_length_duplicates_must_agree:
  "(decodeError this = NONE \<and> parsingError this = [] \<and> isContentLength env c' (name, val)
      \<and> contentLength this = Some c \<and> c' \<noteq> c \<longrightarrow>
      onHeader env this name val
        = (False, this\<lparr>regularHeaderSeen := True,
                       parsingError := ''Multiple content-length headers''\<rparr>))
   \<and> (decodeError thisA = NONE \<and> parsingError thisA = []
        \<and> (contentLength thisA = None \<or> contentLength thisA = Some c)
        \<and> list_all (isContentLength env c) nvs
        \<and> list_all (\<lambda>nv. validateHeaderValue env (snd nv)) nvs \<longrightarrow>
        fst (onHeader_calls env thisA nvs) = replicate (length nvs) True
        \<and> decodeError (snd (onHeader_calls env thisA nvs)) = NONE
        \<and> parsingError (snd (onHeader_calls env thisA nvs)) = []
        \<and> contentLength (snd (onHeader_calls env thisA nvs))
            = (if nvs = [] then contentLength thisA else Some c)
        \<and> headers (msg (snd (onHeader_calls env thisA nvs)))
            = headers (msg thisA)
              @ map (\<lambda>nv. AddByCode HTTP_HEADER_CONTENT_LENGTH (snd nv)) nvs)
   \<and> ((contentLength thisB = None \<or> contentLength thisB = Some c)
        \<and> parsingError thisB \<noteq> ''Multiple content-length headers''
        \<and> list_all (\<lambda>nv. isContentLengthName (fst nv) \<longrightarrow> contentLengthOf env (snd nv) = c)
              nvsB \<longrightarrow>
        parsingError (snd (onHeader_calls env thisB nvsB)) \<noteq> ''Multiple content-length headers''
        \<and> (contentLength (snd (onHeader_calls env thisB nvsB)) = None
             \<or> contentLength (snd (onHeader_calls env thisB nvsB)) = Some c))"
proof (intro conjI impI)
  assume a: "decodeError this = NONE \<and> parsingError this = [] \<and> isContentLength env c' (name, val)
      \<and> contentLength this = Some c \<and> c' \<noteq> c"
  then have "\<not> startsWith (get name) (CHR '':'')"
    "getHeaderCode name = HTTP_HEADER_CONTENT_LENGTH" "contentLengthOf env val = c'"
    by (simp_all add: isContentLength_def)
  from onHeader_content_length[OF _ _ this(1,2), of this env val] a this(3)
  show "onHeader env this name val
          = (False, this\<lparr>regularHeaderSeen := True,
                         parsingError := ''Multiple content-length headers''\<rparr>)"
    by auto
next
  assume b: "decodeError thisA = NONE \<and> parsingError thisA = []
        \<and> (contentLength thisA = None \<or> contentLength thisA = Some c)
        \<and> list_all (isContentLength env c) nvs
        \<and> list_all (\<lambda>nv. validateHeaderValue env (snd nv)) nvs"
  then have r: "fst (onHeader_calls env thisA nvs) = replicate (length nvs) True
         \<and> decodeError (snd (onHeader_calls env thisA nvs)) = NONE
         \<and> parsingError (snd (onHeader_calls env thisA nvs)) = []
         \<and> (contentLength (snd (onHeader_calls env thisA nvs))
              = (if nvs = [] then contentLength thisA else Some c))
         \<and> headers (msg (snd (onHeader_calls env thisA nvs)))
              = headers (msg thisA)
                @ map (\<lambda>nv. AddByCode HTTP_HEADER_CONTENT_LENGTH (snd nv)) nvs"
    by (intro calls_all_equal) auto
  from r show "fst (onHeader_calls env thisA nvs) = replicate (length nvs) True" by blast
  from r show "decodeError (snd (onHeader_calls env thisA nvs)) = NONE" by blast
  from r show "parsingError (snd (onHeader_calls env thisA nvs)) = []" by blast
  from r show "contentLength (snd (onHeader_calls env thisA nvs))
                 = (if nvs = [] then contentLength thisA else Some c)" by blast
  from r show "headers (msg (snd (onHeader_calls env thisA nvs)))
                 = headers (msg thisA)
                   @ map (\<lambda>nv. AddByCode HTTP_HEADER_CONTENT_LENGTH (snd nv)) nvs" by blast
next
  assume d: "(contentLength thisB = None \<or> contentLength thisB = Some c)
        \<and> parsingError thisB \<noteq> ''Multiple content-length headers''
        \<and> list_all (\<lambda>nv. isContentLengthName (fst nv) \<longrightarrow> contentLengthOf env (snd nv) = c)
              nvsB"
  then have k: "(contentLength (snd (onHeader_calls env thisB nvsB)) = None
           \<or> contentLength (snd (onHeader_calls env thisB nvsB)) = Some c)
         \<and> parsingError (snd (onHeader_calls env thisB nvsB)) \<noteq> ''Multiple content-length headers''"
    by (intro calls_keep_agreement) auto
  from k show "parsingError (snd (onHeader_calls env thisB nvsB))
                 \<noteq> ''Multiple content-length headers''" by blast
  from k show "contentLength (snd (onHeader_calls env thisB nvsB)) = None
             \<or> contentLength (snd (onHeader_calls env thisB nvsB)) = Some c" by blast
qed

theorem C8_content_length_witness:
  "isContentLength exampleEnv 42 (contentLengthName, ''42'')
   \<and> isContentLength exampleEnv 7 (contentLengthName, ''7'')
   \<and> validateHeaderValue exampleEnv ''42''
   \<and> fst (onHeader_calls exampleEnv freshInfo
             [(contentLengthName, ''42''), (contentLengthName, ''42'')]) = [True, True]
   \<and> parsingError (snd (onHeader_calls exampleEnv freshInfo
             [(contentLengthName, ''42''), (contentLengthName, ''42'')])) = []
   \<and> contentLength (snd (onHeader_calls exampleEnv freshInfo
             [(contentLengthName, ''42''), (contentLengthName, ''42'')])) = Some 42
   \<and> onHeader exampleEnv (freshInfo\<lparr>regularHeaderSeen := True, contentLength := Some 42\<rparr>)
        contentLengthName ''7''
       = (False, freshInfo\<lparr>regularHeaderSeen := True, contentLength := Some 42,
                           parsingError := ''Multiple content-length headers''\<rparr>)
   \<and> \<not> isContentLengthName \<lparr>get = ''accept'', getHeaderCode = HTTP_HEADER_COMMON 1\<rparr>
   \<and> parsingError (snd (onHeader_calls exampleEnv freshInfo
             [(contentLengthName, ''42''),
              (\<lparr>get = ''accept'', getHeaderCode = HTTP_HEADER_COMMON 1\<rparr>, ''7''),
              (contentLengthName, ''42'')])) \<noteq> ''Multiple content-length headers''"
proof -
  have d: "isContentLength exampleEnv 42 (contentLengthName, ''42'')"
    "isContentLength exampleEnv 7 (contentLengthName, ''7'')"
    by (simp_all add: isContentLength_def contentLengthName_def startsWith_def
          contentLengthOf_def exampleEnv_def decimal_def digitValue_def)
  have v: "validateHeaderValue exampleEnv ''42''" by (simp add: exampleEnv_def)
  have f: "decodeError freshInfo = NONE" "parsingError freshInfo = []"
    "contentLength freshInfo = None" by (simp_all add: freshInfo_def)
  have o: "\<not> isContentLengthName \<lparr>get = ''accept'', getHeaderCode = HTTP_HEADER_COMMON 1\<rparr>"
    by (simp add: isContentLengthName_def)
  have q: "contentLengthOf exampleEnv ''42'' = 42"
    by (simp add: contentLengthOf_def exampleEnv_def decimal_def digitValue_def)
  from C8_content_length_duplicates_must_agree
         [where this = "freshInfo\<lparr>regularHeaderSeen := True, contentLength := Some 42\<rparr>"
            and env = exampleEnv and c' = 7 and name = contentLengthName and val = "''7''"
            and c = 42 and thisA = freshInfo
            and nvs = "[(contentLengthName, ''42''), (contentLengthName, ''42'')]"
            and thisB = freshInfo
            and nvsB = "[(contentLengthName, ''42''),
                         (\<lparr>get = ''accept'', getHeaderCode = HTTP_HEADER_COMMON 1\<rparr>, ''7''),
                         (contentLengthName, ''42'')]"]
       d v f o q
  show ?thesis by simp
qed

text \<open>
  C9 as stated (a Content-Length value that does not parse is recorded as 0 and the
  header accepted if its value is valid) fails when a different content length is
  already recorded: after \<open>content-length: 42\<close>, the header \<open>content-length: abc\<close>, whose
  value does not parse and passes the value validation, is rejected with "Multiple
  content-length headers" and the recorded content length stays 42.
\<close>

theorem C9_unparsable_after_recorded_length_is_rejected:
  "tryTo_uint32 exampleEnv ''abc'' = None
   \<and> validateHeaderValue exampleEnv ''abc''
   \<and> onHeader_calls exampleEnv freshInfo
        [(contentLengthName, ''42''), (contentLengthName, ''abc'')]
       = ([True, False],
          freshInfo\<lparr>msg := \<lparr>statusCode = 0, statusMessage = [],
                              headers = [AddByCode HTTP_HEADER_CONTENT_LENGTH ''42'']\<rparr>,
                     contentLength := Some 42, regularHeaderSeen := True,
                     parsingError := ''Multiple content-length headers''\<rparr>)"
proof -
  have n: "\<not> startsWith (get contentLengthName) (CHR '':'')"
    "getHeaderCode contentLengthName = HTTP_HEADER_CONTENT_LENGTH"
    by (simp_all add: contentLengthName_def startsWith_def)
  have t: "tryTo_uint32 exampleEnv ''abc'' = None" "contentLengthOf exampleEnv ''abc'' = 0"
    "contentLengthOf exampleEnv ''42'' = 42"
    by (simp_all add: contentLengthOf_def exampleEnv_def decimal_def digitValue_def)
  have v: "validateHeaderValue exampleEnv ''abc''" "validateHeaderValue exampleEnv ''42''"
    by (simp_all add: exampleEnv_def)
  let ?s = "freshInfo\<lparr>regularHeaderSeen := True, contentLength := Some 42,
                      msg := (msg freshInfo)\<lparr>headers := headers (msg freshInfo)
                                @ [AddByCode HTTP_HEADER_CONTENT_LENGTH ''42'']\<rparr>\<rparr>"
  have s1: "onHeader exampleEnv freshInfo contentLengthName ''42'' = (True, ?s)"
    using onHeader_content_length[OF _ _ n, of freshInfo exampleEnv "''42''"] t v
    by (simp add: freshInfo_def)
  have s2: "onHeader exampleEnv ?s contentLengthName ''abc''
              = (False, ?s\<lparr>regularHeaderSeen := True,
                            parsingError := ''Multiple content-length headers''\<rparr>)"
    using onHeader_content_length[OF _ _ n, of ?s exampleEnv "''abc''"] t v
    by (simp add: freshInfo_def)
  show ?thesis using t(1) v(1) by (simp add: s1 s2) (simp add: freshInfo_def)
qed

text \<open>
  C9, amended: when \<open>onHeader\<close>, with no error recorded so far, gets a Content-Length
  value that does not parse as a u32, it raises no error for the parse failure and
  takes the content length to be 0.  If no content length, or the content length 0, is
  recorded, then 0 is recorded and the header is accepted when its value passes the
  header-value validation (and rejected as a bad header value when it does not).  If a
  content length other than 0 is recorded, the header is rejected with "Multiple
  content-length headers".
\<close>

theorem C9_unparsable_content_length_counts_as_zero:
  "(decodeError this = NONE \<and> parsingError this = []
      \<and> \<not> startsWith (get name) (CHR '':'')
      \<and> getHeaderCode name = HTTP_HEADER_CONTENT_LENGTH
      \<and> tryTo_uint32 env val = None
      \<and> (contentLength this = None \<or> contentLength this = Some 0) \<longrightarrow>
      onHeader env this name val
        = (if validateHeaderValue env val
           then (True, this\<lparr>regularHeaderSeen := True, contentLength := Some 0,
                           msg := (msg this)\<lparr>headers := headers (msg this)
                                     @ [AddByCode HTTP_HEADER_CONTENT_LENGTH val]\<rparr>\<rparr>)
           else (False, this\<lparr>regularHeaderSeen := True, contentLength := Some 0,
                            parsingError := ''Bad header value: name='' @ get name
                                              @ '' value='' @ val\<rparr>)))
   \<and> (decodeError thisA = NONE \<and> parsingError thisA = []
        \<and> \<not> startsWith (get name) (CHR '':'')
        \<and> getHeaderCode name = HTTP_HEADER_CONTENT_LENGTH
        \<and> tryTo_uint32 env val = None
        \<and> contentLength thisA = Some c \<and> c \<noteq> 0 \<longrightarrow>
        onHeader env thisA name val
          = (False, thisA\<lparr>regularHeaderSeen := True,
                          parsingError := ''Multiple content-length headers''\<rparr>))"
proof (intro conjI impI)
  assume a: "decodeError this = NONE \<and> parsingError this = []
      \<and> \<not> startsWith (get name) (CHR '':'')
      \<and> getHeaderCode name = HTTP_HEADER_CONTENT_LENGTH
      \<and> tryTo_uint32 env val = None
      \<and> (contentLength this = None \<or> contentLength this = Some 0)"
  then have z: "contentLengthOf env val = 0" by (simp add: contentLengthOf_def)
  from a have n: "decodeError this = NONE" "parsingError this = []"
    "\<not> startsWith (get name) (CHR '':'')" "getHeaderCode name = HTTP_HEADER_CONTENT_LENGTH"
    by simp_all
  from onHeader_content_length[OF n, of env val] a z
  show "onHeader env this name val
        = (if validateHeaderValue env val
           then (True, this\<lparr>regularHeaderSeen := True, contentLength := Some 0,
                           msg := (msg this)\<lparr>headers := headers (msg this)
                                     @ [AddByCode HTTP_HEADER_CONTENT_LENGTH val]\<rparr>\<rparr>)
           else (False, this\<lparr>regularHeaderSeen := True, contentLength := Some 0,
                            parsingError := ''Bad header value: name='' @ get name
                                              @ '' value='' @ val\<rparr>))"
    by auto
next
  assume a: "decodeError thisA = NONE \<and> parsingError thisA = []
        \<and> \<not> startsWith (get name) (CHR '':'')
        \<and> getHeaderCode name = HTTP_HEADER_CONTENT_LENGTH
        \<and> tryTo_uint32 env val = None
        \<and> contentLength thisA = Some c \<and> c \<noteq> 0"
  then have z: "contentLengthOf env val = 0" by (simp add: contentLengthOf_def)
  from a have n: "decodeError thisA = NONE" "parsingError thisA = []"
    "\<not> startsWith (get name) (CHR '':'')" "getHeaderCode name = HTTP_HEADER_CONTENT_LENGTH"
    by simp_all
  from onHeader_content_length[OF n, of env val] a z
  show "onHeader env thisA name val
          = (False, thisA\<lparr>regularHeaderSeen := True,
                          parsingError := ''Multiple content-length headers''\<rparr>)"
    by auto
qed

theorem C9_unparsable_content_length_witness:
  "tryTo_uint32 exampleEnv ''abc'' = None
   \<and> tryTo_uint32 exampleEnv ''4294967296'' = None
   \<and> onHeader exampleEnv freshInfo contentLengthName ''4294967296''
       = (True, freshInfo\<lparr>regularHeaderSeen := True, contentLength := Some 0,
                          msg := \<lparr>statusCode = 0, statusMessage = [],
                                  headers = [AddByCode HTTP_HEADER_CONTENT_LENGTH
                                               ''4294967296'']\<rparr>\<rparr>)
   \<and> onHeader exampleEnv (freshInfo\<lparr>contentLength := Some 42\<rparr>) contentLengthName ''4294967296''
       = (False, freshInfo\<lparr>contentLength := Some 42, regularHeaderSeen := True,
                           parsingError := ''Multiple content-length headers''\<rparr>)"
proof -
  have n: "\<not> startsWith (get contentLengthName) (CHR '':'')"
    "getHeaderCode contentLengthName = HTTP_HEADER_CONTENT_LENGTH"
    by (simp_all add: contentLengthName_def startsWith_def)
  have t: "tryTo_uint32 exampleEnv ''abc'' = None"
    "tryTo_uint32 exampleEnv ''4294967296'' = None"
    by (simp_all add: exampleEnv_def decimal_def digitValue_def)
  have v: "validateHeaderValue exampleEnv ''4294967296''" by (simp add: exampleEnv_def)
  have f: "decodeError freshInfo = NONE" "parsingError freshInfo = []"
    "contentLength freshInfo = None" by (simp_all add: freshInfo_def)
  from C9_unparsable_content_length_counts_as_zero
         [where this = freshInfo and name = contentLengthName and env = exampleEnv
            and val = "''4294967296''" and thisA = "freshInfo\<lparr>contentLength := Some 42\<rparr>"
            and c = 42]
       n t v f
  show ?thesis by (simp add: freshInfo_def)
qed

end
